theory Spec2Isabelle
  imports Complex_Main "HOL-Library.Sublist" "HOL-Library.List_Lexorder" "HOL-Library.Char_ord"
begin

section \<open>Strings\<close>

text \<open>
  Python strings are modelled as \<^typ>\<open>string\<close>. \<open>b in s\<close> is \<^const>\<open>sublist\<close>,
  \<open>s.startswith(b)\<close> is \<^const>\<open>prefix\<close>. A value that is \<open>None\<close> prints as
  \<open>None\<close> inside an f-string.
\<close>

definition str_opt :: "string option \<Rightarrow> string" where
  "str_opt x = (case x of None \<Rightarrow> ''None'' | Some s \<Rightarrow> s)"

text \<open>A value between single quotes, as the messages of the store print names.\<close>

definition quoted :: "string \<Rightarrow> string" where
  "quoted s = [CHR 0x27] @ s @ [CHR 0x27]"

text \<open>\<open>sep.join(xs)\<close>.\<close>

fun join :: "string \<Rightarrow> string list \<Rightarrow> string" where
  "join sep [] = []"
| "join sep [x] = x"
| "join sep (x # y # ys) = x @ sep @ join sep (y # ys)"

text \<open>The separator \<open>" \<rightarrow> "\<close> of the source: a space, the three UTF-8 bytes of U+2192, a space.\<close>

definition arrow :: string where
  "arrow = [CHR '' '', CHR 0xE2, CHR 0x86, CHR 0x92, CHR '' '']"

section \<open>The database\<close>

text \<open>
  One record per table of \<open>init_db\<close>, the fields named after the columns with the alias
  the source's queries use for the table. A nullable column is an \<open>option\<close>. Row
  identifiers are SQLite integers; \<open>REAL\<close> columns are \<^typ>\<open>real\<close>.
\<close>

record stop_row =
  s_stop_id :: int
  s_name :: string
  s_latitude :: "real option"
  s_longitude :: "real option"

record path_row =
  p_path_id :: int
  p_path_name :: string

record path_stop_row =
  ps_id :: int
  ps_path_id :: int
  ps_stop_id :: int
  ps_seq :: int

record route_row =
  r_route_id :: int
  r_path_id :: int
  r_route_display_name :: string
  r_shift_time :: string
  r_direction :: string
  r_start_point :: string
  r_end_point :: string
  r_status :: string

record vehicle_row =
  v_vehicle_id :: int
  v_license_plate :: string
  v_type :: string
  v_capacity :: int

record driver_row =
  d_driver_id :: int
  d_name :: string
  d_phone_number :: "string option"

record trip_row =
  t_trip_id :: int
  t_route_id :: int
  t_display_name :: string
  t_booking_status_percentage :: "real option"
  t_live_status :: "string option"

record deployment_row =
  dep_deployment_id :: int
  dep_trip_id :: int
  dep_vehicle_id :: "int option"
  dep_driver_id :: "int option"

text \<open>
  The tables in row order, and the \<open>sqlite_sequence\<close> counters of the
  \<open>AUTOINCREMENT\<close> keys of the tables the operations insert into.
\<close>

record db =
  stops :: "stop_row list"
  paths :: "path_row list"
  path_stops :: "path_stop_row list"
  routes :: "route_row list"
  vehicles :: "vehicle_row list"
  drivers :: "driver_row list"
  daily_trips :: "trip_row list"
  deployments :: "deployment_row list"
  seq_stops :: int
  seq_paths :: int
  seq_path_stops :: int
  seq_routes :: int
  seq_deployments :: int

text \<open>\<open>cur.fetchone()\<close>: the first row of the result, or \<open>None\<close>.\<close>

definition fetchone :: "'a list \<Rightarrow> 'a option" where
  "fetchone rows = (case rows of [] \<Rightarrow> None | x # _ \<Rightarrow> Some x)"

text \<open>
  \<open>LEFT JOIN\<close> of one row with a table: the matching rows, or a single \<open>NULL\<close> row
  when there is none.
\<close>

definition left_join :: "('b \<Rightarrow> bool) \<Rightarrow> 'b list \<Rightarrow> 'b option list" where
  "left_join on tbl = (case filter on tbl of [] \<Rightarrow> [None] | ms \<Rightarrow> map Some ms)"

text \<open>
  An \<open>AUTOINCREMENT\<close> key is one more than the largest key the table ever held,
  which SQLite takes from \<open>sqlite_sequence\<close> and the keys present. Keys are signed
  64-bit integers: once the largest possible key has been used, no key is left and the
  \<open>INSERT\<close> fails.
\<close>

definition max_rowid :: int where
  "max_rowid = 9223372036854775807"

definition largest_key :: "int \<Rightarrow> int list \<Rightarrow> int" where
  "largest_key sq ids = fold max ids sq"

definition fresh_id :: "int \<Rightarrow> int list \<Rightarrow> int option" where
  "fresh_id sq ids =
     (if max_rowid \<le> largest_key sq ids then None else Some (largest_key sq ids + 1))"

section \<open>Removing a vehicle from a trip\<close>

text \<open>The two \<open>SELECT\<close>s of \<open>remove_vehicle_from_trip\<close>.\<close>

definition select_trip :: "db \<Rightarrow> string \<Rightarrow> (trip_row \<times> route_row) option" where
  "select_trip d n =
     fetchone [(t, r). t \<leftarrow> daily_trips d, r \<leftarrow> routes d,
                       r_route_id r = t_route_id t, t_display_name t = n]"

definition select_deployment ::
  "db \<Rightarrow> int \<Rightarrow> (deployment_row \<times> string option \<times> string option) option" where
  "select_deployment d tid =
     fetchone [(dep, map_option v_license_plate v, map_option d_name dr).
                 dep \<leftarrow> deployments d,
                 v \<leftarrow> left_join (\<lambda>v. Some (v_vehicle_id v) = dep_vehicle_id dep) (vehicles d),
                 dr \<leftarrow> left_join (\<lambda>dr. Some (d_driver_id dr) = dep_driver_id dep) (drivers d),
                 dep_trip_id dep = tid]"

text \<open>\<open>x or 0.0\<close> on a nullable \<open>REAL\<close>.\<close>

definition or_zero :: "real option \<Rightarrow> real" where
  "or_zero x = (case x of None \<Rightarrow> 0 | Some b \<Rightarrow> if b = 0 then 0 else b)"

definition warning_message :: "string \<Rightarrow> string \<Rightarrow> string \<Rightarrow> string" where
  "warning_message trip_name route_name booking =
     ''WARNING: '' @
     ''Trip '' @ quoted trip_name @ '' on route '' @ quoted route_name @
       '' is already ~'' @ booking @ ''% booked. '' @
     ''Removing the vehicle will cancel these bookings and the trip-sheet will fail to generate. '' @
     ''Ask the user for a yes/no confirmation. If they confirm, call this again with force=true.''"

definition removed_message :: "string option \<Rightarrow> string option \<Rightarrow> string \<Rightarrow> string" where
  "removed_message plate driver trip_name =
     ''Removed vehicle '' @ quoted (str_opt plate) @ '' and driver '' @ quoted (str_opt driver) @
     '' from trip '' @ quoted trip_name @ ''.''"

text \<open>
  The operation returns its message and the database it leaves. \<open>fmt\<close> is Python's
  formatting of a float inside an f-string, which the model does not fix.
\<close>

definition remove_vehicle_from_trip ::
  "(real \<Rightarrow> string) \<Rightarrow> string \<Rightarrow> bool \<Rightarrow> db \<Rightarrow> string \<times> db" where
  "remove_vehicle_from_trip fmt trip_display_name force d =
     (case select_trip d trip_display_name of
        None \<Rightarrow> (''Trip '' @ quoted trip_display_name @ '' not found.'', d)
      | Some (trip, route) \<Rightarrow>
          (case select_deployment d (t_trip_id trip) of
             None \<Rightarrow>
               (''No vehicle is currently assigned to trip '' @ quoted trip_display_name @ ''.'', d)
           | Some (dep, plate, driver) \<Rightarrow>
               (let booking = or_zero (t_booking_status_percentage trip) in
                if booking > 0 \<and> \<not> force then
                  (warning_message (t_display_name trip) (r_route_display_name route) (fmt booking), d)
                else
                  (removed_message plate driver trip_display_name,
                   d\<lparr>deployments :=
                       filter (\<lambda>x. dep_deployment_id x \<noteq> dep_deployment_id dep) (deployments d)\<rparr>))))"

section \<open>Inserting rows\<close>

text \<open>
  An \<open>INSERT\<close> first takes its key: when none is left it raises
  \<open>sqlite3.OperationalError\<close> (database or disk is full). Then the constraints are
  checked: a violated \<open>UNIQUE\<close> or \<open>CHECK\<close> raises \<open>sqlite3.IntegrityError\<close>. A
  raising \<open>INSERT\<close> changes nothing; a successful one gives \<open>cur.lastrowid\<close> and the
  new database. Failures of the storage itself (the disk, a lock) are outside the model.
\<close>

datatype py_error = IntegrityError | OperationalError

definition insert_stop ::
  "string \<Rightarrow> real option \<Rightarrow> real option \<Rightarrow> db \<Rightarrow> py_error + int \<times> db" where
  "insert_stop name lat lon d =
     (case fresh_id (seq_stops d) (map s_stop_id (stops d)) of
        None \<Rightarrow> Inl OperationalError
      | Some k \<Rightarrow>
          if name \<in> set (map s_name (stops d)) then Inl IntegrityError
          else Inr (k, d\<lparr>stops := stops d @
                         [\<lparr>s_stop_id = k, s_name = name, s_latitude = lat, s_longitude = lon\<rparr>],
                       seq_stops := k\<rparr>))"

definition insert_path :: "string \<Rightarrow> db \<Rightarrow> py_error + int \<times> db" where
  "insert_path path_name d =
     (case fresh_id (seq_paths d) (map p_path_id (paths d)) of
        None \<Rightarrow> Inl OperationalError
      | Some k \<Rightarrow>
          if path_name \<in> set (map p_path_name (paths d)) then Inl IntegrityError
          else Inr (k, d\<lparr>paths := paths d @ [\<lparr>p_path_id = k, p_path_name = path_name\<rparr>],
                       seq_paths := k\<rparr>))"

definition insert_path_stop :: "int \<Rightarrow> int \<Rightarrow> int \<Rightarrow> db \<Rightarrow> py_error + db" where
  "insert_path_stop path_id stop_id sq d =
     (case fresh_id (seq_path_stops d) (map ps_id (path_stops d)) of
        None \<Rightarrow> Inl OperationalError
      | Some k \<Rightarrow>
          Inr (d\<lparr>path_stops := path_stops d @
                    [\<lparr>ps_id = k, ps_path_id = path_id, ps_stop_id = stop_id, ps_seq = sq\<rparr>],
                  seq_path_stops := k\<rparr>))"

definition insert_route ::
  "int \<Rightarrow> string \<Rightarrow> string \<Rightarrow> string \<Rightarrow> string \<Rightarrow> string \<Rightarrow> string \<Rightarrow> db \<Rightarrow>
   py_error + int \<times> db" where
  "insert_route path_id route_display_name shift_time direction start_point end_point status d =
     (case fresh_id (seq_routes d) (map r_route_id (routes d)) of
        None \<Rightarrow> Inl OperationalError
      | Some k \<Rightarrow>
          if route_display_name \<in> set (map r_route_display_name (routes d))
             \<or> status \<notin> {''active'', ''deactivated''} then Inl IntegrityError
          else Inr (k, d\<lparr>routes := routes d @
                         [\<lparr>r_route_id = k, r_path_id = path_id,
                           r_route_display_name = route_display_name, r_shift_time = shift_time,
                           r_direction = direction, r_start_point = start_point,
                           r_end_point = end_point, r_status = status\<rparr>],
                       seq_routes := k\<rparr>))"

definition insert_deployment ::
  "int \<Rightarrow> int option \<Rightarrow> int option \<Rightarrow> db \<Rightarrow> py_error + int \<times> db" where
  "insert_deployment trip_id vehicle_id driver_id d =
     (case fresh_id (seq_deployments d) (map dep_deployment_id (deployments d)) of
        None \<Rightarrow> Inl OperationalError
      | Some k \<Rightarrow>
          if trip_id \<in> set (map dep_trip_id (deployments d)) then Inl IntegrityError
          else Inr (k, d\<lparr>deployments := deployments d @
                         [\<lparr>dep_deployment_id = k, dep_trip_id = trip_id,
                           dep_vehicle_id = vehicle_id, dep_driver_id = driver_id\<rparr>],
                       seq_deployments := k\<rparr>))"

section \<open>Stops, paths and routes\<close>

text \<open>
  The creating operations return their message and the database they leave, or leave as
  an exception (\<open>Inl\<close>). Their \<open>except sqlite3.IntegrityError\<close> clause answers with a
  message and the database as it was; any other exception passes through it, and the
  connection is closed without a commit.
\<close>

definition except_integrity :: "string \<Rightarrow> db \<Rightarrow> py_error \<Rightarrow> py_error + string \<times> db" where
  "except_integrity msg d e =
     (case e of IntegrityError \<Rightarrow> Inr (msg, d) | OperationalError \<Rightarrow> Inl OperationalError)"

definition create_stop ::
  "string \<Rightarrow> real option \<Rightarrow> real option \<Rightarrow> db \<Rightarrow> py_error + string \<times> db" where
  "create_stop name latitude longitude d =
     (case insert_stop name latitude longitude d of
        Inr (_, d') \<Rightarrow> Inr (''Created new stop '' @ quoted name @ ''.'', d')
      | Inl e \<Rightarrow> except_integrity (''Stop '' @ quoted name @ '' already exists.'') d e)"

text \<open>
  The loop of \<open>create_path\<close> over \<open>enumerate(stop_names, start=1)\<close>: a stop that is
  not stored yet is created with null coordinates. \<open>Inl\<close> is an exception raised
  inside the loop.
\<close>

fun add_path_stops :: "int \<Rightarrow> (nat \<times> string) list \<Rightarrow> db \<Rightarrow> py_error + db" where
  "add_path_stops path_id [] d = Inr d"
| "add_path_stops path_id ((sq, name) # rest) d =
     (case fetchone [s_stop_id s. s \<leftarrow> stops d, s_name s = name] of
        None \<Rightarrow>
          (case insert_stop name None None d of
             Inl e \<Rightarrow> Inl e
           | Inr (stop_id, d') \<Rightarrow>
               (case insert_path_stop path_id stop_id (int sq) d' of
                  Inl e \<Rightarrow> Inl e
                | Inr d'' \<Rightarrow> add_path_stops path_id rest d''))
      | Some stop_id \<Rightarrow>
          (case insert_path_stop path_id stop_id (int sq) d of
             Inl e \<Rightarrow> Inl e
           | Inr d' \<Rightarrow> add_path_stops path_id rest d'))"

definition create_path :: "string \<Rightarrow> string list \<Rightarrow> db \<Rightarrow> py_error + string \<times> db" where
  "create_path path_name stop_names d =
     (if stop_names = [] then Inr (''Need at least one stop to create a path.'', d)
      else
        (case insert_path path_name d of
           Inl e \<Rightarrow> except_integrity (''Path '' @ quoted path_name @ '' already exists.'') d e
         | Inr (path_id, d1) \<Rightarrow>
             (case add_path_stops path_id (enumerate 1 stop_names) d1 of
                Inl e \<Rightarrow> except_integrity (''Path '' @ quoted path_name @ '' already exists.'') d e
              | Inr d2 \<Rightarrow>
                  Inr (''Created path '' @ quoted path_name @ '' with stops: '' @
                       join arrow stop_names, d2))))"

text \<open>
  The query of \<open>list_stops_for_path\<close> and \<open>create_route\<close>: the names of the stops of
  a path, \<open>ORDER BY ps.seq ASC\<close>. The sort is stable; SQL leaves the order of equal
  \<open>seq\<close> open.
\<close>

definition path_stop_rows :: "db \<Rightarrow> int \<Rightarrow> (int \<times> string) list" where
  "path_stop_rows d path_id =
     [(ps_seq ps, s_name s). ps \<leftarrow> path_stops d, s \<leftarrow> stops d,
                             s_stop_id s = ps_stop_id ps, ps_path_id ps = path_id]"

definition path_stop_names :: "db \<Rightarrow> int \<Rightarrow> string list" where
  "path_stop_names d path_id = map snd (sort_key fst (path_stop_rows d path_id))"

definition select_path :: "db \<Rightarrow> string \<Rightarrow> int option" where
  "select_path d path_name = fetchone [p_path_id p. p \<leftarrow> paths d, p_path_name p = path_name]"

definition list_stops_for_path :: "string \<Rightarrow> db \<Rightarrow> string" where
  "list_stops_for_path path_name d =
     (case select_path d path_name of
        None \<Rightarrow> ''Path '' @ quoted path_name @ '' not found.''
      | Some path_id \<Rightarrow>
          (let stops = path_stop_names d path_id in
           if stops = [] then ''Path '' @ quoted path_name @ '' has no stops configured.''
           else ''Stops on '' @ path_name @ '': '' @ join arrow stops))"

definition create_route ::
  "string \<Rightarrow> string \<Rightarrow> string \<Rightarrow> db \<Rightarrow> py_error + string \<times> db" where
  "create_route path_name shift_time direction d =
     (case select_path d path_name of
        None \<Rightarrow> Inr (''Path '' @ quoted path_name @ '' not found, cannot create route.'', d)
      | Some path_id \<Rightarrow>
          (let names = path_stop_names d path_id in
           if names = [] then
             Inr (''Path '' @ quoted path_name @ '' has no stops configured, cannot create route.'', d)
           else
             (let start_point = hd names; end_point = last names;
                  route_display_name = path_name @ '' - '' @ shift_time in
              case insert_route path_id route_display_name shift_time direction
                     start_point end_point ''active'' d of
                Inr (_, d') \<Rightarrow>
                  Inr (''Created route '' @ quoted route_display_name @ '' ('' @ direction @
                       '') from '' @ start_point @ '' to '' @ end_point @ ''.'', d')
              | Inl e \<Rightarrow>
                  except_integrity (''Route '' @ quoted route_display_name @ '' already exists.'') d e)))"

definition route_line :: "route_row \<Rightarrow> string" where
  "route_line r =
     ''- '' @ r_route_display_name r @ '' ('' @ r_direction r @ '' @ '' @ r_shift_time r @ '')''"

definition list_active_routes :: "db \<Rightarrow> string" where
  "list_active_routes d =
     (let rows = sort_key r_shift_time [r \<leftarrow> routes d. r_status r = ''active''] in
      if rows = [] then ''There are no active routes.''
      else ''Active routes:'' @ [CHR 0x0A] @ join [CHR 0x0A] (map route_line rows))"

section \<open>Assigning a vehicle and a driver\<close>

text \<open>
  The \<open>INSERT\<close> of \<open>assign_vehicle_and_driver\<close> stands outside any \<open>try\<close>: an
  exception there leaves the function, the \<open>Inl\<close> of the result.
\<close>

definition assign_vehicle_and_driver ::
  "string \<Rightarrow> string \<Rightarrow> string \<Rightarrow> db \<Rightarrow> py_error + string \<times> db" where
  "assign_vehicle_and_driver trip_display_name vehicle_plate driver_name d =
     (case fetchone [t_trip_id t. t \<leftarrow> daily_trips d, t_display_name t = trip_display_name] of
        None \<Rightarrow> Inr (''Trip '' @ quoted trip_display_name @ '' not found.'', d)
      | Some trip_id \<Rightarrow>
     (case fetchone [v_vehicle_id v. v \<leftarrow> vehicles d, v_license_plate v = vehicle_plate] of
        None \<Rightarrow> Inr (''Vehicle '' @ quoted vehicle_plate @ '' not found.'', d)
      | Some vehicle_id \<Rightarrow>
     (case fetchone [d_driver_id dr. dr \<leftarrow> drivers d, d_name dr = driver_name] of
        None \<Rightarrow> Inr (''Driver '' @ quoted driver_name @ '' not found.'', d)
      | Some driver_id \<Rightarrow>
     (case fetchone [dep_deployment_id dep. dep \<leftarrow> deployments d, dep_trip_id dep = trip_id] of
        Some existing \<Rightarrow>
          Inr (''Updated deployment: trip '' @ quoted trip_display_name @ '' now uses vehicle '' @
               vehicle_plate @ '' with driver '' @ driver_name @ ''.'',
               d\<lparr>deployments :=
                   map (\<lambda>dep. if dep_deployment_id dep = existing
                              then dep\<lparr>dep_vehicle_id := Some vehicle_id, dep_driver_id := Some driver_id\<rparr>
                              else dep) (deployments d)\<rparr>)
      | None \<Rightarrow>
          (case insert_deployment trip_id (Some vehicle_id) (Some driver_id) d of
             Inl e \<Rightarrow> Inl e
           | Inr (_, d') \<Rightarrow>
               Inr (''Assigned vehicle '' @ vehicle_plate @ '' and driver '' @ driver_name @
                    '' to trip '' @ quoted trip_display_name @ ''.'', d'))))))"

section \<open>The keys of the schema\<close>

text \<open>
  What \<open>init_db\<close> declares and the properties below rely on: the \<open>PRIMARY KEY\<close> and
  \<open>UNIQUE\<close> columns hold no value twice, and a \<open>path_stops\<close> row refers to a path
  whose key has been handed out.
\<close>

definition schema_ok :: "db \<Rightarrow> bool" where
  "schema_ok d \<longleftrightarrow>
     distinct (map s_stop_id (stops d)) \<and> distinct (map s_name (stops d)) \<and>
     distinct (map p_path_name (paths d)) \<and>
     distinct (map r_route_id (routes d)) \<and> distinct (map r_route_display_name (routes d)) \<and>
     distinct (map v_license_plate (vehicles d)) \<and> distinct (map d_name (drivers d)) \<and>
     distinct (map t_display_name (daily_trips d)) \<and>
     distinct (map dep_trip_id (deployments d)) \<and>
     (\<forall>ps\<in>set (path_stops d). ps_path_id ps \<le> seq_paths d)"

section \<open>The seeded database\<close>

text \<open>
  The database \<open>init_db\<close> leaves on a fresh file: the empty tables, filled by
  \<open>_seed_if_empty\<close>. The keys are the ones \<open>AUTOINCREMENT\<close> hands out, from 1.
\<close>

definition seed_db :: db where
  "seed_db = \<lparr>
     stops = [
       \<lparr>s_stop_id = 1, s_name = ''Gavipuram'', s_latitude = Some 12.942, s_longitude = Some 77.566\<rparr>,
       \<lparr>s_stop_id = 2, s_name = ''Temple'', s_latitude = Some 12.945, s_longitude = Some 77.568\<rparr>,
       \<lparr>s_stop_id = 3, s_name = ''Peenya'', s_latitude = Some 13.020, s_longitude = Some 77.515\<rparr>,
       \<lparr>s_stop_id = 4, s_name = ''Majestic'', s_latitude = Some 12.978, s_longitude = Some 77.572\<rparr>,
       \<lparr>s_stop_id = 5, s_name = ''Tech Park'', s_latitude = Some 12.997, s_longitude = Some 77.700\<rparr>],
     paths = [
       \<lparr>p_path_id = 1, p_path_name = ''Path-1''\<rparr>,
       \<lparr>p_path_id = 2, p_path_name = ''Path-2''\<rparr>],
     path_stops = [
       \<lparr>ps_id = 1, ps_path_id = 1, ps_stop_id = 1, ps_seq = 1\<rparr>,
       \<lparr>ps_id = 2, ps_path_id = 1, ps_stop_id = 2, ps_seq = 2\<rparr>,
       \<lparr>ps_id = 3, ps_path_id = 1, ps_stop_id = 3, ps_seq = 3\<rparr>,
       \<lparr>ps_id = 4, ps_path_id = 2, ps_stop_id = 3, ps_seq = 1\<rparr>,
       \<lparr>ps_id = 5, ps_path_id = 2, ps_stop_id = 4, ps_seq = 2\<rparr>,
       \<lparr>ps_id = 6, ps_path_id = 2, ps_stop_id = 5, ps_seq = 3\<rparr>],
     routes = [
       \<lparr>r_route_id = 1, r_path_id = 1, r_route_display_name = ''Path-1 - 08:30'',
        r_shift_time = ''08:30'', r_direction = ''IN'', r_start_point = ''Gavipuram'',
        r_end_point = ''Peenya'', r_status = ''active''\<rparr>,
       \<lparr>r_route_id = 2, r_path_id = 1, r_route_display_name = ''Path-1 - 19:45'',
        r_shift_time = ''19:45'', r_direction = ''OUT'', r_start_point = ''Gavipuram'',
        r_end_point = ''Peenya'', r_status = ''active''\<rparr>,
       \<lparr>r_route_id = 3, r_path_id = 2, r_route_display_name = ''Path-2 - 19:45'',
        r_shift_time = ''19:45'', r_direction = ''IN'', r_start_point = ''Peenya'',
        r_end_point = ''Tech Park'', r_status = ''active''\<rparr>],
     vehicles = [
       \<lparr>v_vehicle_id = 1, v_license_plate = ''KA-01-1111'', v_type = ''Bus'', v_capacity = 40\<rparr>,
       \<lparr>v_vehicle_id = 2, v_license_plate = ''MH-12-3456'', v_type = ''Bus'', v_capacity = 40\<rparr>,
       \<lparr>v_vehicle_id = 3, v_license_plate = ''KA-05-9999'', v_type = ''Cab'', v_capacity = 4\<rparr>],
     drivers = [
       \<lparr>d_driver_id = 1, d_name = ''Amit'', d_phone_number = Some ''9999990001''\<rparr>,
       \<lparr>d_driver_id = 2, d_name = ''Rahul'', d_phone_number = Some ''9999990002''\<rparr>,
       \<lparr>d_driver_id = 3, d_name = ''Sneha'', d_phone_number = Some ''9999990003''\<rparr>],
     daily_trips = [
       \<lparr>t_trip_id = 1, t_route_id = 1, t_display_name = ''Bulk - 00:01'',
        t_booking_status_percentage = Some 25, t_live_status = Some ''00:01 IN''\<rparr>,
       \<lparr>t_trip_id = 2, t_route_id = 1, t_display_name = ''Bulk - 00:02'',
        t_booking_status_percentage = Some 0, t_live_status = Some ''00:02 IN''\<rparr>,
       \<lparr>t_trip_id = 3, t_route_id = 3, t_display_name = ''Path Path - 00:02'',
        t_booking_status_percentage = Some 10, t_live_status = Some ''00:02 OUT''\<rparr>],
     deployments = [
       \<lparr>dep_deployment_id = 1, dep_trip_id = 1, dep_vehicle_id = Some 1, dep_driver_id = Some 1\<rparr>,
       \<lparr>dep_deployment_id = 2, dep_trip_id = 3, dep_vehicle_id = Some 2, dep_driver_id = Some 2\<rparr>],
     seq_stops = 5, seq_paths = 2, seq_path_stops = 6, seq_routes = 3, seq_deployments = 2\<rparr>"

section \<open>The conversation history\<close>

text \<open>
  A turn of the session's history is a dictionary with the keys \<open>role\<close> and
  \<open>content\<close>. A message handed to the graph has a \<open>type\<close> and a content that is
  either the plain text or the two-part list of a text and an \<open>image_url\<close>.
\<close>

record turn =
  role :: string
  content :: string

datatype graph_content = Plain string | TextAndImage string string

record graph_message =
  m_type :: string
  m_content :: graph_content

text \<open>The truth value Python gives an optional string: \<open>None\<close> and \<open>""\<close> are false.\<close>

definition truthy :: "string option \<Rightarrow> bool" where
  "truthy s = (case s of None \<Rightarrow> False | Some x \<Rightarrow> x \<noteq> [])"

definition to_graph_message :: "turn list \<Rightarrow> string option \<Rightarrow> nat \<times> turn \<Rightarrow> graph_message" where
  "to_graph_message history last_image_b64 = (\<lambda>(i, msg).
     (let is_last = (int i = int (length history) - 1) in
      if role msg = ''user'' then
        (if is_last \<and> truthy last_image_b64 then
           \<lparr>m_type = ''human'',
            m_content = TextAndImage (content msg) (''data:image/png;base64,'' @ the last_image_b64)\<rparr>
         else \<lparr>m_type = ''human'', m_content = Plain (content msg)\<rparr>)
      else \<lparr>m_type = ''ai'', m_content = Plain (content msg)\<rparr>))"

definition history_to_graph_messages :: "turn list \<Rightarrow> string option \<Rightarrow> graph_message list" where
  "history_to_graph_messages history last_image_b64 =
     map (to_graph_message history last_image_b64) (enumerate 0 history)"

text \<open>Whether a graph message carries an attachment, and which.\<close>

definition attachment :: "graph_message \<Rightarrow> string option" where
  "attachment m = (case m_content m of Plain _ \<Rightarrow> None | TextAndImage _ url \<Rightarrow> Some url)"

section \<open>The generic query\<close>

text \<open>
  A Python string is carried as the bytes of its UTF-8 encoding. \<open>str.strip()\<close>
  removes the white space of both ends: the characters for which \<open>str.isspace()\<close>
  holds, listed here by their encodings (the ASCII blanks, U+0085, U+00A0, U+1680,
  U+2000 to U+200A, U+2028, U+2029, U+202F, U+205F, U+3000).
\<close>

definition whitespace :: "string list" where
  "whitespace =
     [[CHR 0x09], [CHR 0x0A], [CHR 0x0B], [CHR 0x0C], [CHR 0x0D], [CHR 0x1C], [CHR 0x1D],
      [CHR 0x1E], [CHR 0x1F], [CHR 0x20], [CHR 0xC2, CHR 0x85], [CHR 0xC2, CHR 0xA0],
      [CHR 0xE1, CHR 0x9A, CHR 0x80], [CHR 0xE2, CHR 0x80, CHR 0x80],
      [CHR 0xE2, CHR 0x80, CHR 0x81], [CHR 0xE2, CHR 0x80, CHR 0x82],
      [CHR 0xE2, CHR 0x80, CHR 0x83], [CHR 0xE2, CHR 0x80, CHR 0x84],
      [CHR 0xE2, CHR 0x80, CHR 0x85], [CHR 0xE2, CHR 0x80, CHR 0x86],
      [CHR 0xE2, CHR 0x80, CHR 0x87], [CHR 0xE2, CHR 0x80, CHR 0x88],
      [CHR 0xE2, CHR 0x80, CHR 0x89], [CHR 0xE2, CHR 0x80, CHR 0x8A],
      [CHR 0xE2, CHR 0x80, CHR 0xA8], [CHR 0xE2, CHR 0x80, CHR 0xA9],
      [CHR 0xE2, CHR 0x80, CHR 0xAF], [CHR 0xE2, CHR 0x81, CHR 0x9F],
      [CHR 0xE3, CHR 0x80, CHR 0x80]]"

function strip_left :: "string list \<Rightarrow> string \<Rightarrow> string" where
  "strip_left toks s =
     (case find (\<lambda>w. w \<noteq> [] \<and> prefix w s) toks of
        None \<Rightarrow> s
      | Some w \<Rightarrow> strip_left toks (drop (length w) s))"
  by pat_completeness auto
termination
proof (relation "measure (\<lambda>(toks, s). length s)")
  show "wf (measure (\<lambda>(toks, s). length s))" by simp
next
  fix toks :: "string list" and s w :: string
  assume "find (\<lambda>w. w \<noteq> [] \<and> prefix w s) toks = Some w"
  then have "w \<noteq> []" "prefix w s" by (auto simp: find_Some_iff)
  then have "s \<noteq> []" by auto
  with \<open>w \<noteq> []\<close> show "((toks, drop (length w) s), (toks, s)) \<in> measure (\<lambda>(toks, s). length s)"
    by simp
qed

definition strip :: "string \<Rightarrow> string" where
  "strip s = strip_left whitespace (rev (strip_left (map rev whitespace) (rev s)))"

text \<open>
  \<open>str.lower()\<close> maps the capital letters. Beyond ASCII Python lowers further
  letters, which the model leaves as they are: the only ASCII letters that arise from
  them are \<open>i\<close> (from U+0130) and \<open>k\<close> (from U+212A), and neither occurs in
  an entry of the denylist or in \<open>select\<close>, the only texts looked for in the
  lowered statement.
\<close>

definition lower_char :: "char \<Rightarrow> char" where
  "lower_char c = (let n = (of_char c :: nat) in if 65 \<le> n \<and> n \<le> 90 then char_of (n + 32) else c)"

definition lower :: "string \<Rightarrow> string" where
  "lower s = map lower_char s"

text \<open>\<open>str(n)\<close> for an integer.\<close>

function str_nat :: "nat \<Rightarrow> string" where
  "str_nat n = (if n < 10 then [char_of (48 + n)] else str_nat (n div 10) @ [char_of (48 + n mod 10)])"
  by pat_completeness auto
termination
  by (relation "measure id") auto

definition str_int :: "int \<Rightarrow> string" where
  "str_int i = (if i < 0 then ''-'' @ str_nat (nat (- i)) else str_nat (nat i))"

text \<open>
  What \<open>cur.execute(query)\<close> does is SQLite's business: the engine is a parameter of the
  model. It either raises, with the text of the exception, or runs the statement and
  gives the column names, the rows (each value as \<open>str\<close> prints it), \<open>cur.rowcount\<close>
  and the database the statement leaves once committed.
\<close>

datatype sql_result = Raised string | Executed "string list" "string list list" int db

type_synonym sql_engine = "string \<Rightarrow> db \<Rightarrow> sql_result"

definition banned :: "string list" where
  "banned = [''drop '', ''alter '', ''pragma'', ''attach'', ''detach'']"

text \<open>\<open>len(s)\<close> counts characters: the bytes that do not continue an encoding.\<close>

definition len :: "string \<Rightarrow> nat" where
  "len s = length (filter (\<lambda>c. \<not> (128 \<le> (of_char c :: nat) \<and> (of_char c :: nat) < 192)) s)"

definition result_table :: "string list \<Rightarrow> string list list \<Rightarrow> string" where
  "result_table headers rows =
     (let line0 = join '' | '' headers;
          lines = [line0, replicate (len line0) CHR ''-''] @ map (join '' | '') rows
      in join [CHR 0x0A] lines)"

definition dynamic_run_sql_query :: "sql_engine \<Rightarrow> string \<Rightarrow> string \<Rightarrow> db \<Rightarrow> string \<times> db" where
  "dynamic_run_sql_query execute query mode d =
     (let q_lower = lower (strip query) in
      if \<exists>b\<in>set banned. sublist b q_lower then (''Unsafe SQL command blocked.'', d)
      else if mode = ''read'' \<and> \<not> prefix ''select'' q_lower then
        (''Only SELECT queries allowed in read mode.'', d)
      else
        (case execute query d of
           Raised e \<Rightarrow> (''SQL error: '' @ e, d)
         | Executed headers rows rowcount d' \<Rightarrow>
             if prefix ''select'' q_lower then
               (if rows = [] then (''Query executed. No rows returned.'', d)
                else (result_table headers rows, d))
             else
               (''Query executed successfully ('' @ str_int rowcount @ '' rows affected).'', d')))"

section \<open>The decision loop\<close>

text \<open>
  The messages of the graph state. A dictionary of the reformatted history becomes a
  human or an assistant message; the reasoning capability answers with an assistant
  message that carries its tool calls; a tool node answers each call with a tool message
  tagged with the identifier of the call.
\<close>

record tool_call =
  tc_name :: string
  tc_args :: "(string \<times> string) list"
  tc_id :: string

datatype message =
    HumanMessage graph_content
  | AIMessage graph_content "tool_call list"
  | ToolMessage string string
  | SystemMessage string

definition coerce :: "graph_message \<Rightarrow> message" where
  "coerce m = (if m_type m = ''human'' then HumanMessage (m_content m) else AIMessage (m_content m) [])"

text \<open>
  \<open>MoviState\<close>, together with what the nodes act on: the database and the state of the
  reasoning capability, which need not answer the same way twice.
\<close>

record 's movi_state =
  messages :: "message list"
  current_page :: string
  st_db :: db
  st_llm :: 's

text \<open>
  What the graph is built from and the model leaves open: the language model with the
  tools bound (\<open>reason\<close>: from its state and the messages to the content and the tool
  calls of its answer), the text of \<open>_build_system_prompt\<close>, which embeds the live
  schema, the dispatch of one tool call to its function of the store, and what several
  calls of one message answer and leave when the tool node runs them side by side.
\<close>

record 's capabilities =
  reason :: "'s \<Rightarrow> message list \<Rightarrow> (string \<times> tool_call list) \<times> 's"
  build_system_prompt :: "db \<Rightarrow> string \<Rightarrow> string"
  run_tool :: "tool_call \<Rightarrow> db \<Rightarrow> string \<times> db"
  run_concurrently :: "tool_call list \<Rightarrow> db \<Rightarrow> string list \<times> db"

text \<open>\<open>_agent_node\<close>; the reducer \<open>add_messages\<close> appends the returned message.\<close>

definition agent_node :: "'s capabilities \<Rightarrow> 's movi_state \<Rightarrow> 's movi_state" where
  "agent_node caps st =
     (let sys_msg = SystemMessage (build_system_prompt caps (st_db st) (current_page st));
          ((text, calls), llm') = reason caps (st_llm st) (sys_msg # messages st)
      in st\<lparr>messages := messages st @ [AIMessage (Plain text) calls], st_llm := llm'\<rparr>)"

text \<open>
  \<open>ToolNode(TOOLS)\<close>: every call of the last assistant message gets one tool message,
  in the order requested and tagged with the call's identifier. A single call is run on
  its own. Several calls are handed to the library's thread pool and run concurrently:
  the order of their effects on the store is not fixed by the source, so their answers
  and the database they leave are taken from \<open>run_concurrently\<close>. The node is entered
  only after \<open>tools_condition\<close> has seen such calls.
\<close>

fun dispatch :: "'s capabilities \<Rightarrow> tool_call list \<Rightarrow> db \<Rightarrow> message list \<times> db" where
  "dispatch caps [] d = ([], d)"
| "dispatch caps [c] d =
     (let (res, d1) = run_tool caps c d in ([ToolMessage res (tc_id c)], d1))"
| "dispatch caps cs d =
     (let (results, d1) = run_concurrently caps cs d
      in (map (\<lambda>(res, c). ToolMessage res (tc_id c)) (zip results cs), d1))"

definition last_tool_calls :: "message list \<Rightarrow> tool_call list" where
  "last_tool_calls ms =
     (if ms = [] then [] else (case last ms of AIMessage _ calls \<Rightarrow> calls | _ \<Rightarrow> []))"

definition tool_node :: "'s capabilities \<Rightarrow> 's movi_state \<Rightarrow> 's movi_state" where
  "tool_node caps st =
     (let (ms, d') = dispatch caps (last_tool_calls (messages st)) (st_db st)
      in st\<lparr>messages := messages st @ ms, st_db := d'\<rparr>)"

definition tools_condition :: "'s movi_state \<Rightarrow> string" where
  "tools_condition st = (if last_tool_calls (messages st) \<noteq> [] then ''tools'' else ''__end__'')"

text \<open>
  The graph of \<open>build_movi_graph\<close>: its fixed edges and the conditional edge of the
  agent. A node's targets are those of its fixed edges and of its conditional edge; an
  edge to the end activates nothing. As wired, at most one target is not the end.
\<close>

definition edges :: "(string \<times> string) list" where
  "edges = [(''__start__'', ''agent''), (''tools'', ''agent''), (''agent'', ''__end__'')]"

definition targets :: "string \<Rightarrow> 's movi_state \<Rightarrow> string list" where
  "targets n st = [t. (s, t) \<leftarrow> edges, s = n] @ (if n = ''agent'' then [tools_condition st] else [])"

definition next_node :: "string \<Rightarrow> 's movi_state \<Rightarrow> string" where
  "next_node n st = (case filter (\<lambda>t. t \<noteq> ''__end__'') (targets n st) of [] \<Rightarrow> ''__end__'' | t # _ \<Rightarrow> t)"

definition run_node :: "'s capabilities \<Rightarrow> string \<Rightarrow> 's movi_state \<Rightarrow> 's movi_state" where
  "run_node caps n st =
     (if n = ''agent'' then agent_node caps st
      else if n = ''tools'' then tool_node caps st
      else st)"

text \<open>
  Running the graph from a node. The source sets no bound on the rounds, so the run
  need not end: the result is \<open>None\<close> then.
\<close>

partial_function (option) run_graph ::
  "'s capabilities \<Rightarrow> string \<Rightarrow> 's movi_state \<Rightarrow> 's movi_state option" where
  "run_graph caps n st =
     (if n = ''__end__'' then Some st
      else run_graph caps (next_node n (run_node caps n st)) (run_node caps n st))"

definition graph_invoke :: "'s capabilities \<Rightarrow> 's movi_state \<Rightarrow> 's movi_state option" where
  "graph_invoke caps st = run_graph caps (next_node ''__start__'' st) st"

text \<open>
  The chat step of \<open>main\<close>: the user turn is appended, the history reformatted, the
  graph invoked, and the content of the last message appended as the assistant turn.
  \<open>str\<close> of a two-part content is written for parts free of quotes and escapes.
\<close>

definition content_text :: "graph_content \<Rightarrow> string" where
  "content_text c =
     (case c of
        Plain s \<Rightarrow> s
      | TextAndImage t url \<Rightarrow>
          ''[{'' @ quoted ''type'' @ '': '' @ quoted ''text'' @ '', '' @ quoted ''text'' @ '': '' @
          quoted t @ ''}, {'' @ quoted ''type'' @ '': '' @ quoted ''image_url'' @ '', '' @
          quoted ''image_url'' @ '': {'' @ quoted ''url'' @ '': '' @ quoted url @ ''}}]'')"

definition reply_text :: "message \<Rightarrow> string" where
  "reply_text m =
     (case m of
        HumanMessage c \<Rightarrow> content_text c
      | AIMessage c _ \<Rightarrow> content_text c
      | ToolMessage s _ \<Rightarrow> s
      | SystemMessage s \<Rightarrow> s)"

definition chat_step ::
  "'s capabilities \<Rightarrow> string \<Rightarrow> string \<Rightarrow> string option \<Rightarrow> turn list \<Rightarrow> db \<Rightarrow> 's \<Rightarrow>
   (turn list \<times> db \<times> 's) option" where
  "chat_step caps page user_input image_b64 chat_history d llm =
     (let history1 = chat_history @ [\<lparr>role = ''user'', content = user_input\<rparr>];
          graph_messages = history_to_graph_messages history1 image_b64
      in case graph_invoke caps \<lparr>messages = map coerce graph_messages, current_page = page,
                                  st_db = d, st_llm = llm\<rparr> of
           None \<Rightarrow> None
         | Some result_state \<Rightarrow>
             Some (history1 @ [\<lparr>role = ''assistant'',
                                content = reply_text (last (messages result_state))\<rparr>],
                   st_db result_state, st_llm result_state))"

section \<open>Lookups under the schema's keys\<close>


lemma fetchone_all_eq: "xs \<noteq> [] \<Longrightarrow> \<forall>x\<in>set xs. x = a \<Longrightarrow> fetchone xs = Some a"
  by (cases xs) (auto simp: fetchone_def)

lemma fetchone_left_join: "fetchone (left_join on tbl) = Some (find on tbl)"
  by (induction tbl) (auto simp: left_join_def fetchone_def split: list.splits)

lemma left_join_Cons: "\<exists>rest. left_join on tbl = find on tbl # rest"
  using fetchone_left_join [of on tbl] by (auto simp: fetchone_def split: list.splits)

lemma select_trip_row:
  assumes "distinct (map t_display_name (daily_trips d))"
    and "distinct (map r_route_id (routes d))"
    and "t \<in> set (daily_trips d)" and "r \<in> set (routes d)"
    and "r_route_id r = t_route_id t"
  shows "select_trip d (t_display_name t) = Some (t, r)"
proof -
  let ?rows = "[(t', r'). t' \<leftarrow> daily_trips d, r' \<leftarrow> routes d,
                 r_route_id r' = t_route_id t', t_display_name t' = t_display_name t]"
  have inj_t: "inj_on t_display_name (set (daily_trips d))"
    using assms(1) by (simp add: distinct_map)
  have inj_r: "inj_on r_route_id (set (routes d))"
    using assms(2) by (simp add: distinct_map)
  have mem: "(t, r) \<in> set ?rows"
    using assms(3,4,5) by auto
  have "\<forall>x\<in>set ?rows. x = (t, r)"
  proof
    fix x assume "x \<in> set ?rows"
    then obtain t' r' where x: "x = (t', r')" and t': "t' \<in> set (daily_trips d)"
      and r': "r' \<in> set (routes d)" and id: "r_route_id r' = t_route_id t'"
      and nm: "t_display_name t' = t_display_name t"
      by (auto split: if_splits)
    from inj_t t' assms(3) nm have "t' = t" by (auto dest: inj_onD)
    moreover from \<open>t' = t\<close> id assms(5) have "r_route_id r' = r_route_id r" by simp
    with inj_r r' assms(4) have "r' = r" by (rule_tac inj_onD)
    ultimately show "x = (t, r)" using x by simp
  qed
  moreover from mem have "?rows \<noteq> []" by auto
  ultimately show ?thesis
    unfolding select_trip_def by (rule fetchone_all_eq [rotated])
qed

lemma select_deployment_row:
  assumes "distinct (map dep_trip_id (deployments d))"
    and "dep \<in> set (deployments d)"
  shows "select_deployment d (dep_trip_id dep) =
     Some (dep,
       map_option v_license_plate (find (\<lambda>v. Some (v_vehicle_id v) = dep_vehicle_id dep) (vehicles d)),
       map_option d_name (find (\<lambda>dr. Some (d_driver_id dr) = dep_driver_id dep) (drivers d)))"
proof -
  from assms(2) obtain pre post where sp: "deployments d = pre @ dep # post"
    by (auto dest: split_list)
  with assms(1) have "dep_trip_id dep \<notin> dep_trip_id ` set pre"
    by simp
  then have "\<forall>x\<in>set pre. dep_trip_id x \<noteq> dep_trip_id dep"
    by (metis imageI)
  then have pre: "[x\<leftarrow>pre. dep_trip_id x = dep_trip_id dep] = []"
    by (auto simp: filter_empty_conv)
  obtain vs where vs: "left_join (\<lambda>v. Some (v_vehicle_id v) = dep_vehicle_id dep) (vehicles d) =
      find (\<lambda>v. Some (v_vehicle_id v) = dep_vehicle_id dep) (vehicles d) # vs"
    using left_join_Cons by blast
  obtain ds where ds: "left_join (\<lambda>dr. Some (d_driver_id dr) = dep_driver_id dep) (drivers d) =
      find (\<lambda>dr. Some (d_driver_id dr) = dep_driver_id dep) (drivers d) # ds"
    using left_join_Cons by blast
  have pre_nil: "concat (map (\<lambda>dep'. concat (map (\<lambda>v. concat (map (\<lambda>dr.
            if dep_trip_id dep' = dep_trip_id dep
            then [(dep', map_option v_license_plate v, map_option d_name dr)] else [])
          (left_join (\<lambda>dr. Some (d_driver_id dr) = dep_driver_id dep') (drivers d))))
          (left_join (\<lambda>v. Some (v_vehicle_id v) = dep_vehicle_id dep') (vehicles d)))) pre) = []"
    using \<open>\<forall>x\<in>set pre. dep_trip_id x \<noteq> dep_trip_id dep\<close> by (induction pre) auto
  show ?thesis
    unfolding select_deployment_def fetchone_def sp
    by (simp add: vs ds pre_nil)
qed


lemma comprehension_filter:
  "concat (map (\<lambda>y. if P y then [f y] else []) xs) = map f (filter P xs)"
  by (induction xs) simp_all

lemma filter_unique_key:
  "distinct (map key xs) \<Longrightarrow> x \<in> set xs \<Longrightarrow> filter (\<lambda>y. key y = key x) xs = [x]"
proof (induction xs)
  case Nil
  then show ?case by simp
next
  case (Cons a xs)
  show ?case
  proof (cases "a = x")
    case True
    with Cons.prems have "\<forall>y\<in>set xs. key y \<noteq> key x" by (metis distinct.simps(2) imageI list.simps(9) list.set_map)
    then have "filter (\<lambda>y. key y = key x) xs = []" by (simp add: filter_empty_conv)
    with True show ?thesis by simp
  next
    case False
    with Cons.prems have mem: "x \<in> set xs" by simp
    with Cons.prems have "key a \<noteq> key x" by (metis distinct.simps(2) imageI list.simps(9) list.set_map)
    with Cons mem show ?thesis by simp
  qed
qed

lemma fetchone_unique_key:
  "distinct (map key xs) \<Longrightarrow> x \<in> set xs \<Longrightarrow>
   fetchone (concat (map (\<lambda>y. if key y = key x then [f y] else []) xs)) = Some (f x)"
  by (simp add: comprehension_filter filter_unique_key fetchone_def)

lemma filter_no_key:
  "k \<notin> set (map key xs) \<Longrightarrow> filter (\<lambda>y. key y = k) xs = []"
  by (induction xs) auto

lemma fetchone_no_key:
  "k \<notin> set (map key xs) \<Longrightarrow>
   fetchone (concat (map (\<lambda>y. if key y = k then [f y] else []) xs)) = None"
proof -
  assume "k \<notin> set (map key xs)"
  then have "filter (\<lambda>y. key y = k) xs = []" by (rule filter_no_key)
  then show ?thesis by (simp add: comprehension_filter fetchone_def)
qed

section \<open>Keys\<close>

lemma fold_max_ge: "sq \<le> fold max ids (sq::int) \<and> (\<forall>i\<in>set ids. i \<le> fold max ids sq)"
proof (induction ids arbitrary: sq)
  case Nil
  then show ?case by simp
next
  case (Cons a ids)
  from Cons [of "max a sq"] show ?case by auto
qed

lemma largest_key_ge: "sq \<le> largest_key sq ids" "i \<in> set ids \<Longrightarrow> i \<le> largest_key sq ids"
  using fold_max_ge [of sq ids] by (auto simp: largest_key_def)

lemma fresh_id_Some:
  "largest_key sq ids < max_rowid \<Longrightarrow> fresh_id sq ids = Some (largest_key sq ids + 1)"
  by (simp add: fresh_id_def)

lemma fresh_id_gt:
  "fresh_id sq ids = Some k \<Longrightarrow> sq < k"
  "fresh_id sq ids = Some k \<Longrightarrow> i \<in> set ids \<Longrightarrow> i < k"
  using largest_key_ge [of sq ids] largest_key_ge(2) [of i ids sq]
  by (auto simp: fresh_id_def split: if_splits)

lemma fresh_id_notin: "fresh_id sq ids = Some k \<Longrightarrow> k \<notin> set ids"
  using fresh_id_gt(2) [of sq ids k k] by auto

lemma fold_max_absorb: "\<forall>i\<in>set ids. i \<le> k \<Longrightarrow> fold max ids (k::int) = k"
  by (induction ids) (simp_all add: max_absorb2)

lemma largest_key_snoc:
  "largest_key (largest_key sq ids + 1) (ids @ [largest_key sq ids + 1]) = largest_key sq ids + 1"
proof -
  have "\<forall>i\<in>set ids. i \<le> largest_key sq ids + 1"
    using largest_key_ge(2) [of _ ids sq] by force
  then show ?thesis
    by (simp add: largest_key_def fold_max_absorb)
qed

section \<open>The safety gate of \<open>remove_vehicle_from_trip\<close>\<close>

lemma remove_vehicle_found:
  assumes "distinct (map t_display_name (daily_trips d))"
    and "distinct (map r_route_id (routes d))"
    and "distinct (map dep_trip_id (deployments d))"
    and "t \<in> set (daily_trips d)" and "r \<in> set (routes d)" and "r_route_id r = t_route_id t"
    and "dep \<in> set (deployments d)" and "dep_trip_id dep = t_trip_id t"
  shows "remove_vehicle_from_trip fmt (t_display_name t) force d =
     (if or_zero (t_booking_status_percentage t) > 0 \<and> \<not> force then
        (warning_message (t_display_name t) (r_route_display_name r)
           (fmt (or_zero (t_booking_status_percentage t))), d)
      else
        (removed_message
           (map_option v_license_plate
              (find (\<lambda>v. Some (v_vehicle_id v) = dep_vehicle_id dep) (vehicles d)))
           (map_option d_name
              (find (\<lambda>dr. Some (d_driver_id dr) = dep_driver_id dep) (drivers d)))
           (t_display_name t),
         d\<lparr>deployments :=
             filter (\<lambda>x. dep_deployment_id x \<noteq> dep_deployment_id dep) (deployments d)\<rparr>))"
proof -
  have 1: "select_trip d (t_display_name t) = Some (t, r)"
    using assms(1,2,4,5,6) by (rule select_trip_row)
  have 2: "select_deployment d (t_trip_id t) =
     Some (dep,
       map_option v_license_plate (find (\<lambda>v. Some (v_vehicle_id v) = dep_vehicle_id dep) (vehicles d)),
       map_option d_name (find (\<lambda>dr. Some (d_driver_id dr) = dep_driver_id dep) (drivers d)))"
    using select_deployment_row [OF assms(3,7)] assms(8) by simp
  show ?thesis
    unfolding remove_vehicle_from_trip_def by (simp add: 1 2 Let_def)
qed

lemma warning_message_parts:
  "prefix ''WARNING'' (warning_message a b c)"
  "sublist ''Ask the user for a yes/no confirmation. If they confirm, call this again with force=true.''
     (warning_message a b c)"
proof -
  show "prefix ''WARNING'' (warning_message a b c)"
    unfolding warning_message_def by simp
  have "suffix ''Ask the user for a yes/no confirmation. If they confirm, call this again with force=true.''
     (warning_message a b c)"
    unfolding warning_message_def suffix_def append_assoc [symmetric] by (rule exI) (rule refl)
  then show "sublist ''Ask the user for a yes/no confirmation. If they confirm, call this again with force=true.''
     (warning_message a b c)"
    by (rule suffix_imp_sublist)
qed


lemma removed_message_not_warning: "\<not> prefix ''WARNING'' (removed_message a b c)"
  unfolding removed_message_def by simp

text \<open>
  C1. For a trip that exists (its row joins a route), has a deployment and has a booking
  percentage above 0, \<open>remove_vehicle_from_trip\<close> with \<open>force = False\<close> returns the
  message that starts with \<open>WARNING\<close> and tells the caller to ask the user for a yes/no
  confirmation and to call again with \<open>force=true\<close>; the database is returned as it was.
\<close>

theorem remove_vehicle_warns:
  assumes "distinct (map t_display_name (daily_trips d))"
    and "distinct (map r_route_id (routes d))"
    and "distinct (map dep_trip_id (deployments d))"
    and "t \<in> set (daily_trips d)" and "r \<in> set (routes d)" and "r_route_id r = t_route_id t"
    and "dep \<in> set (deployments d)" and "dep_trip_id dep = t_trip_id t"
    and "t_booking_status_percentage t = Some b" and "b > 0"
  shows "remove_vehicle_from_trip fmt (t_display_name t) False d =
           (warning_message (t_display_name t) (r_route_display_name r) (fmt b), d)
       \<and> sublist ''WARNING'' (fst (remove_vehicle_from_trip fmt (t_display_name t) False d))
       \<and> sublist ''Ask the user for a yes/no confirmation. If they confirm, call this again with force=true.''
           (fst (remove_vehicle_from_trip fmt (t_display_name t) False d))
       \<and> snd (remove_vehicle_from_trip fmt (t_display_name t) False d) = d"
proof -
  have "or_zero (t_booking_status_percentage t) = b"
    using assms(9,10) by (simp add: or_zero_def)
  then have "remove_vehicle_from_trip fmt (t_display_name t) False d =
           (warning_message (t_display_name t) (r_route_display_name r) (fmt b), d)"
    using remove_vehicle_found [OF assms(1-8), of fmt False] assms(10) by simp
  then show ?thesis
    using warning_message_parts by (simp add: prefix_imp_sublist)
qed


theorem remove_vehicle_warns_witness:
  "remove_vehicle_from_trip (\<lambda>_. ''25.0'') ''Bulk - 00:01'' False seed_db =
     (warning_message ''Bulk - 00:01'' ''Path-1 - 08:30'' ''25.0'', seed_db)
   \<and> sublist ''WARNING'' (fst (remove_vehicle_from_trip (\<lambda>_. ''25.0'') ''Bulk - 00:01'' False seed_db))
   \<and> sublist ''Ask the user for a yes/no confirmation. If they confirm, call this again with force=true.''
       (fst (remove_vehicle_from_trip (\<lambda>_. ''25.0'') ''Bulk - 00:01'' False seed_db))
   \<and> snd (remove_vehicle_from_trip (\<lambda>_. ''25.0'') ''Bulk - 00:01'' False seed_db) = seed_db"
proof -
  let ?t = "hd (daily_trips seed_db)" and ?r = "hd (routes seed_db)"
  let ?dep = "hd (deployments seed_db)"
  have 1: "distinct (map t_display_name (daily_trips seed_db))"
    and 2: "distinct (map r_route_id (routes seed_db))"
    and 3: "distinct (map dep_trip_id (deployments seed_db))"
    and 4: "?t \<in> set (daily_trips seed_db)" and 5: "?r \<in> set (routes seed_db)"
    and 6: "r_route_id ?r = t_route_id ?t"
    and 7: "?dep \<in> set (deployments seed_db)" and 8: "dep_trip_id ?dep = t_trip_id ?t"
    and 9: "t_booking_status_percentage ?t = Some 25" and 10: "(25::real) > 0"
    by (simp_all add: seed_db_def)
  have n: "t_display_name ?t = ''Bulk - 00:01''" "r_route_display_name ?r = ''Path-1 - 08:30''"
    by (simp_all add: seed_db_def)
  show ?thesis
    using remove_vehicle_warns [OF 1 2 3 4 5 6 7 8 9 10, of "\<lambda>_. ''25.0''"]
    unfolding n .
qed




text \<open>
  C9. For a trip with a deployment whose stored booking percentage is \<open>NULL\<close>,
  \<open>remove_vehicle_from_trip\<close> with \<open>force = False\<close> deletes the deployment and returns
  the confirmation; and with \<open>force = False\<close> the warning is returned exactly when the
  stored percentage is a number strictly above 0.
\<close>

theorem remove_vehicle_null_booking:
  assumes "distinct (map t_display_name (daily_trips d))"
    and "distinct (map r_route_id (routes d))"
    and "distinct (map dep_trip_id (deployments d))"
    and "t \<in> set (daily_trips d)" and "r \<in> set (routes d)" and "r_route_id r = t_route_id t"
    and "dep \<in> set (deployments d)" and "dep_trip_id dep = t_trip_id t"
  shows "(t_booking_status_percentage t = None \<longrightarrow>
            remove_vehicle_from_trip fmt (t_display_name t) False d =
              (removed_message
                 (map_option v_license_plate
                    (find (\<lambda>v. Some (v_vehicle_id v) = dep_vehicle_id dep) (vehicles d)))
                 (map_option d_name
                    (find (\<lambda>dr. Some (d_driver_id dr) = dep_driver_id dep) (drivers d)))
                 (t_display_name t),
               d\<lparr>deployments :=
                   filter (\<lambda>x. dep_deployment_id x \<noteq> dep_deployment_id dep) (deployments d)\<rparr>))
       \<and> (prefix ''WARNING'' (fst (remove_vehicle_from_trip fmt (t_display_name t) False d))
            \<longleftrightarrow> (\<exists>b. t_booking_status_percentage t = Some b \<and> 0 < b))"
proof -
  note found = remove_vehicle_found [OF assms, of fmt False]
  have gate: "0 < or_zero (t_booking_status_percentage t)
      \<longleftrightarrow> (\<exists>b. t_booking_status_percentage t = Some b \<and> 0 < b)"
    by (cases "t_booking_status_percentage t") (simp_all add: or_zero_def)
  show ?thesis
  proof (cases "0 < or_zero (t_booking_status_percentage t)")
    case True
    with found gate show ?thesis
      by (auto simp: warning_message_parts(1))
  next
    case False
    with found gate show ?thesis
      by (auto simp: removed_message_not_warning)
  qed
qed

theorem remove_vehicle_null_booking_witness:
  "remove_vehicle_from_trip (\<lambda>_. ''0.0'') ''Bulk - 00:01'' False
     (seed_db\<lparr>daily_trips := map (\<lambda>t. t\<lparr>t_booking_status_percentage := None\<rparr>) (daily_trips seed_db)\<rparr>)
   = (''Removed vehicle '' @ quoted ''KA-01-1111'' @ '' and driver '' @ quoted ''Amit'' @
      '' from trip '' @ quoted ''Bulk - 00:01'' @ ''.'',
      seed_db\<lparr>daily_trips := map (\<lambda>t. t\<lparr>t_booking_status_percentage := None\<rparr>) (daily_trips seed_db),
              deployments := tl (deployments seed_db)\<rparr>)"
proof -
  let ?d = "seed_db\<lparr>daily_trips :=
      map (\<lambda>t. t\<lparr>t_booking_status_percentage := None\<rparr>) (daily_trips seed_db)\<rparr>"
  let ?t = "hd (daily_trips ?d)" and ?r = "hd (routes ?d)" and ?dep = "hd (deployments ?d)"
  have 1: "distinct (map t_display_name (daily_trips ?d))"
    and 2: "distinct (map r_route_id (routes ?d))"
    and 3: "distinct (map dep_trip_id (deployments ?d))"
    and 4: "?t \<in> set (daily_trips ?d)" and 5: "?r \<in> set (routes ?d)"
    and 6: "r_route_id ?r = t_route_id ?t"
    and 7: "?dep \<in> set (deployments ?d)" and 8: "dep_trip_id ?dep = t_trip_id ?t"
    by (simp_all add: seed_db_def)
  show ?thesis
    using remove_vehicle_null_booking [OF 1 2 3 4 5 6 7 8, of "\<lambda>_. ''0.0''"]
    by (simp add: seed_db_def removed_message_def str_opt_def)
qed

section \<open>Reformatting the history\<close>

lemma history_nth:
  assumes "i < length h"
  shows "history_to_graph_messages h img ! i = to_graph_message h img (i, h ! i)"
  using assms unfolding history_to_graph_messages_def
  by (simp add: nth_enumerate_eq)

text \<open>
  C8. For every history and optional image, the reformatted list has one message per turn,
  and a message carries an attachment exactly when it is the final message, its turn is a
  user turn and an image is present (not \<open>None\<close>, not empty); the attachment is then
  the image's data URL. No earlier message carries an attachment.
\<close>

theorem image_only_on_last_user_turn:
  "length (history_to_graph_messages h img) = length h
   \<and> (\<forall>i < length h.
        attachment (history_to_graph_messages h img ! i) =
          (if Suc i = length h \<and> role (h ! i) = ''user'' \<and> truthy img
           then Some (''data:image/png;base64,'' @ the img) else None))
   \<and> (\<forall>i. Suc i < length h \<longrightarrow> attachment (history_to_graph_messages h img ! i) = None)"
proof -
  have len: "length (history_to_graph_messages h img) = length h"
    by (simp add: history_to_graph_messages_def)
  have att: "attachment (history_to_graph_messages h img ! i) =
          (if Suc i = length h \<and> role (h ! i) = ''user'' \<and> truthy img
           then Some (''data:image/png;base64,'' @ the img) else None)" if "i < length h" for i
  proof -
    have "(int i = int (length h) - 1) \<longleftrightarrow> Suc i = length h"
      using that by auto
    then show ?thesis
      unfolding history_nth [OF that] to_graph_message_def attachment_def
      by (simp add: Let_def)
  qed
  from att have "attachment (history_to_graph_messages h img ! i) = None" if "Suc i < length h" for i
    using that by simp
  with len att show ?thesis by blast
qed


theorem image_only_on_last_user_turn_witness:
  "length (history_to_graph_messages
      [\<lparr>role = ''user'', content = ''hi''\<rparr>, \<lparr>role = ''assistant'', content = ''hello''\<rparr>,
       \<lparr>role = ''user'', content = ''what is on this screen''\<rparr>] (Some ''iVBORw0KGgo'')) = 3
   \<and> attachment (history_to_graph_messages
      [\<lparr>role = ''user'', content = ''hi''\<rparr>, \<lparr>role = ''assistant'', content = ''hello''\<rparr>,
       \<lparr>role = ''user'', content = ''what is on this screen''\<rparr>] (Some ''iVBORw0KGgo'') ! 0) = None
   \<and> attachment (history_to_graph_messages
      [\<lparr>role = ''user'', content = ''hi''\<rparr>, \<lparr>role = ''assistant'', content = ''hello''\<rparr>,
       \<lparr>role = ''user'', content = ''what is on this screen''\<rparr>] (Some ''iVBORw0KGgo'') ! 1) = None
   \<and> attachment (history_to_graph_messages
      [\<lparr>role = ''user'', content = ''hi''\<rparr>, \<lparr>role = ''assistant'', content = ''hello''\<rparr>,
       \<lparr>role = ''user'', content = ''what is on this screen''\<rparr>] (Some ''iVBORw0KGgo'') ! 2)
       = Some ''data:image/png;base64,iVBORw0KGgo''"
proof -
  let ?h = "[\<lparr>role = ''user'', content = ''hi''\<rparr>, \<lparr>role = ''assistant'', content = ''hello''\<rparr>,
       \<lparr>role = ''user'', content = ''what is on this screen''\<rparr>]"
  let ?out = "history_to_graph_messages ?h (Some ''iVBORw0KGgo'')"
  note th = image_only_on_last_user_turn [of ?h "Some ''iVBORw0KGgo''"]
  have len: "length ?out = 3"
    using th [THEN conjunct1] by simp
  note a = th [THEN conjunct2, THEN conjunct1, rule_format]
  have 0: "attachment (?out ! 0) = None" using a [of 0] by simp
  have 1: "attachment (?out ! 1) = None" using a [of 1] by simp
  have 2: "attachment (?out ! 2) = Some ''data:image/png;base64,iVBORw0KGgo''"
    using a [of 2] by (simp add: truthy_def)
  from len 0 1 2 show ?thesis by (intro conjI)
qed

section \<open>Assignment is last-write-wins\<close>

lemma assign_step:
  assumes "distinct (map t_display_name (daily_trips d))"
    and "distinct (map v_license_plate (vehicles d))"
    and "distinct (map d_name (drivers d))"
    and "distinct (map dep_trip_id (deployments d))"
    and "t \<in> set (daily_trips d)" and "v \<in> set (vehicles d)" and "dr \<in> set (drivers d)"
    and room: "t_trip_id t \<in> set (map dep_trip_id (deployments d))
      \<or> largest_key (seq_deployments d) (map dep_deployment_id (deployments d)) < max_rowid"
  shows "\<exists>m d' dep.
      assign_vehicle_and_driver (t_display_name t) (v_license_plate v) (d_name dr) d = Inr (m, d')
    \<and> daily_trips d' = daily_trips d \<and> vehicles d' = vehicles d \<and> drivers d' = drivers d
    \<and> distinct (map dep_trip_id (deployments d'))
    \<and> filter (\<lambda>x. dep_trip_id x = t_trip_id t) (deployments d') = [dep]
    \<and> dep_vehicle_id dep = Some (v_vehicle_id v) \<and> dep_driver_id dep = Some (d_driver_id dr)"
proof -
  have 1: "fetchone [t_trip_id t'. t' \<leftarrow> daily_trips d, t_display_name t' = t_display_name t]
      = Some (t_trip_id t)"
    using assms(1,5) by (rule fetchone_unique_key)
  have 2: "fetchone [v_vehicle_id v'. v' \<leftarrow> vehicles d, v_license_plate v' = v_license_plate v]
      = Some (v_vehicle_id v)"
    using assms(2,6) by (rule fetchone_unique_key)
  have 3: "fetchone [d_driver_id dr'. dr' \<leftarrow> drivers d, d_name dr' = d_name dr]
      = Some (d_driver_id dr)"
    using assms(3,7) by (rule fetchone_unique_key)
  show ?thesis
  proof (cases "t_trip_id t \<in> set (map dep_trip_id (deployments d))")
    case True
    then obtain dep0 where dep0: "dep0 \<in> set (deployments d)" "dep_trip_id dep0 = t_trip_id t"
      by auto
    let ?upd = "\<lambda>dep. if dep_deployment_id dep = dep_deployment_id dep0
                     then dep\<lparr>dep_vehicle_id := Some (v_vehicle_id v),
                              dep_driver_id := Some (d_driver_id dr)\<rparr>
                     else dep"
    have 4: "fetchone [dep_deployment_id dep. dep \<leftarrow> deployments d, dep_trip_id dep = t_trip_id t]
        = Some (dep_deployment_id dep0)"
      using fetchone_unique_key [OF assms(4) dep0(1), of dep_deployment_id] dep0(2) by simp
    have tid: "dep_trip_id (?upd x) = dep_trip_id x" for x by simp
    have m: "map dep_trip_id (map ?upd (deployments d)) = map dep_trip_id (deployments d)"
      by (simp add: o_def)
    have "filter (\<lambda>x. dep_trip_id x = t_trip_id t) (map ?upd (deployments d))
        = map ?upd (filter (\<lambda>x. dep_trip_id x = t_trip_id t) (deployments d))"
      by (simp add: filter_map o_def)
    also have "\<dots> = [?upd dep0]"
      using filter_unique_key [OF assms(4) dep0(1)] dep0(2) by simp
    finally have f: "filter (\<lambda>x. dep_trip_id x = t_trip_id t) (map ?upd (deployments d))
        = [dep0\<lparr>dep_vehicle_id := Some (v_vehicle_id v), dep_driver_id := Some (d_driver_id dr)\<rparr>]"
      by simp
    show ?thesis
      unfolding assign_vehicle_and_driver_def
      using assms(4) by (simp add: 1 2 3 4 m f del: map_map)
  next
    case False
    then have 4: "fetchone [dep_deployment_id dep. dep \<leftarrow> deployments d, dep_trip_id dep = t_trip_id t]
        = None"
      by (rule fetchone_no_key)
    from False have f: "filter (\<lambda>x. dep_trip_id x = t_trip_id t) (deployments d) = []"
      by (rule filter_no_key)
    from False room
    have "largest_key (seq_deployments d) (map dep_deployment_id (deployments d)) < max_rowid"
      by blast
    then have k: "fresh_id (seq_deployments d) (map dep_deployment_id (deployments d)) =
        Some (largest_key (seq_deployments d) (map dep_deployment_id (deployments d)) + 1)"
      by (rule fresh_id_Some)
    show ?thesis
      unfolding assign_vehicle_and_driver_def insert_deployment_def
      using assms(4) False by (simp add: 1 2 3 4 f k)
  qed
qed


text \<open>
  C6. The deployments hold at most one row per trip (the \<open>UNIQUE\<close> key on
  \<open>trip_id\<close>), and \<open>assign_vehicle_and_driver\<close> keeps it so. After two successive
  calls for the same existing trip with existing vehicles and drivers, both calls return
  normally, exactly one deployment row of the trip exists, and it holds the vehicle and the
  driver of the second call. A key must be left for the deployment the first call may
  insert: the largest key the deployments ever held is below the largest possible one.
\<close>

theorem assign_last_write_wins:
  assumes "distinct (map t_display_name (daily_trips d))"
    and "distinct (map v_license_plate (vehicles d))"
    and "distinct (map d_name (drivers d))"
    and "distinct (map dep_trip_id (deployments d))"
    and "largest_key (seq_deployments d) (map dep_deployment_id (deployments d)) < max_rowid"
    and "t \<in> set (daily_trips d)"
    and "v1 \<in> set (vehicles d)" and "v2 \<in> set (vehicles d)"
    and "dr1 \<in> set (drivers d)" and "dr2 \<in> set (drivers d)"
  shows "\<exists>m1 d1 m2 d2 dep.
      assign_vehicle_and_driver (t_display_name t) (v_license_plate v1) (d_name dr1) d = Inr (m1, d1)
    \<and> assign_vehicle_and_driver (t_display_name t) (v_license_plate v2) (d_name dr2) d1 = Inr (m2, d2)
    \<and> distinct (map dep_trip_id (deployments d1))
    \<and> distinct (map dep_trip_id (deployments d2))
    \<and> filter (\<lambda>x. dep_trip_id x = t_trip_id t) (deployments d2) = [dep]
    \<and> dep_vehicle_id dep = Some (v_vehicle_id v2) \<and> dep_driver_id dep = Some (d_driver_id dr2)"
proof -
  from assign_step [OF assms(1-4) assms(6) assms(7) assms(9) disjI2 [OF assms(5)]]
  obtain m1 d1 dep1 where first:
    "assign_vehicle_and_driver (t_display_name t) (v_license_plate v1) (d_name dr1) d = Inr (m1, d1)"
    and same: "daily_trips d1 = daily_trips d" "vehicles d1 = vehicles d" "drivers d1 = drivers d"
    and one: "filter (\<lambda>x. dep_trip_id x = t_trip_id t) (deployments d1) = [dep1]"
    and uniq1: "distinct (map dep_trip_id (deployments d1))"
    by blast
  have "dep1 \<in> set (filter (\<lambda>x. dep_trip_id x = t_trip_id t) (deployments d1))"
    by (simp only: one list.set_intros)
  then have has: "t_trip_id t \<in> set (map dep_trip_id (deployments d1))"
    by force
  have "distinct (map t_display_name (daily_trips d1))" "distinct (map v_license_plate (vehicles d1))"
    "distinct (map d_name (drivers d1))" "t \<in> set (daily_trips d1)" "v2 \<in> set (vehicles d1)"
    "dr2 \<in> set (drivers d1)"
    using assms same by simp_all
  from assign_step [OF this(1-3) uniq1 this(4-6) disjI1 [OF has]]
  obtain m2 d2 dep where
    "assign_vehicle_and_driver (t_display_name t) (v_license_plate v2) (d_name dr2) d1 = Inr (m2, d2)"
    "distinct (map dep_trip_id (deployments d2))"
    "filter (\<lambda>x. dep_trip_id x = t_trip_id t) (deployments d2) = [dep]"
    "dep_vehicle_id dep = Some (v_vehicle_id v2)" "dep_driver_id dep = Some (d_driver_id dr2)"
    by blast
  with first uniq1 show ?thesis by blast
qed

theorem assign_last_write_wins_witness:
  "\<exists>m1 d1 m2 d2 dep.
      assign_vehicle_and_driver ''Bulk - 00:02'' ''KA-05-9999'' ''Sneha'' seed_db = Inr (m1, d1)
    \<and> assign_vehicle_and_driver ''Bulk - 00:02'' ''KA-01-1111'' ''Amit'' d1 = Inr (m2, d2)
    \<and> distinct (map dep_trip_id (deployments d1))
    \<and> distinct (map dep_trip_id (deployments d2))
    \<and> filter (\<lambda>x. dep_trip_id x = 2) (deployments d2) = [dep]
    \<and> dep_vehicle_id dep = Some 1 \<and> dep_driver_id dep = Some 1"
proof -
  let ?t = "daily_trips seed_db ! 1"
  let ?v1 = "vehicles seed_db ! 2" and ?v2 = "vehicles seed_db ! 0"
  let ?dr1 = "drivers seed_db ! 2" and ?dr2 = "drivers seed_db ! 0"
  have h: "distinct (map t_display_name (daily_trips seed_db))"
    "distinct (map v_license_plate (vehicles seed_db))"
    "distinct (map d_name (drivers seed_db))"
    "distinct (map dep_trip_id (deployments seed_db))"
    "largest_key (seq_deployments seed_db) (map dep_deployment_id (deployments seed_db)) < max_rowid"
    "?t \<in> set (daily_trips seed_db)"
    "?v1 \<in> set (vehicles seed_db)" "?v2 \<in> set (vehicles seed_db)"
    "?dr1 \<in> set (drivers seed_db)" "?dr2 \<in> set (drivers seed_db)"
    by (simp_all add: seed_db_def largest_key_def max_rowid_def)
  have n: "t_display_name ?t = ''Bulk - 00:02''" "t_trip_id ?t = 2"
    "v_license_plate ?v1 = ''KA-05-9999''" "v_license_plate ?v2 = ''KA-01-1111''"
    "d_name ?dr1 = ''Sneha''" "d_name ?dr2 = ''Amit''"
    "v_vehicle_id ?v2 = 1" "d_driver_id ?dr2 = 1"
    by (simp_all add: seed_db_def)
  show ?thesis
    using assign_last_write_wins [OF h] unfolding n .
qed

section \<open>Creation is idempotent\<close>

lemma filter_key_length_one:
  assumes "distinct (map key xs)" and "k \<in> set (map key xs)"
  shows "length (filter (\<lambda>y. key y = k) xs) = 1"
proof -
  from assms(2) obtain x where "x \<in> set xs" "key x = k" by auto
  with filter_unique_key [OF assms(1), of x] show ?thesis by auto
qed

lemma fetchone_None_key:
  "fetchone (concat (map (\<lambda>y. if key y = k then [f y] else []) xs)) = None
   \<longleftrightarrow> k \<notin> set (map key xs)"
proof -
  have "filter (\<lambda>y. key y = k) xs = [] \<longleftrightarrow> k \<notin> set (map key xs)"
    by (induction xs) auto
  then show ?thesis
    by (auto simp: comprehension_filter fetchone_def split: list.splits)
qed

text \<open>What an \<open>INSERT\<close> does when a key is left.\<close>

lemma insert_stop_new:
  assumes "largest_key (seq_stops d) (map s_stop_id (stops d)) < max_rowid"
    and "name \<notin> set (map s_name (stops d))"
  shows "insert_stop name lat lon d =
     Inr (largest_key (seq_stops d) (map s_stop_id (stops d)) + 1,
          d\<lparr>stops := stops d @
               [\<lparr>s_stop_id = largest_key (seq_stops d) (map s_stop_id (stops d)) + 1,
                 s_name = name, s_latitude = lat, s_longitude = lon\<rparr>],
             seq_stops := largest_key (seq_stops d) (map s_stop_id (stops d)) + 1\<rparr>)"
  using assms(2) by (simp add: insert_stop_def fresh_id_Some [OF assms(1)])

lemma insert_stop_dup:
  assumes "largest_key (seq_stops d) (map s_stop_id (stops d)) < max_rowid"
    and "name \<in> set (map s_name (stops d))"
  shows "insert_stop name lat lon d = Inl IntegrityError"
  using assms(2) by (simp add: insert_stop_def fresh_id_Some [OF assms(1)])

lemma insert_path_new:
  assumes "largest_key (seq_paths d) (map p_path_id (paths d)) < max_rowid"
    and "path_name \<notin> set (map p_path_name (paths d))"
  shows "insert_path path_name d =
     Inr (largest_key (seq_paths d) (map p_path_id (paths d)) + 1,
          d\<lparr>paths := paths d @
               [\<lparr>p_path_id = largest_key (seq_paths d) (map p_path_id (paths d)) + 1,
                 p_path_name = path_name\<rparr>],
             seq_paths := largest_key (seq_paths d) (map p_path_id (paths d)) + 1\<rparr>)"
  using assms(2) by (simp add: insert_path_def fresh_id_Some [OF assms(1)])

lemma insert_path_dup:
  assumes "largest_key (seq_paths d) (map p_path_id (paths d)) < max_rowid"
    and "path_name \<in> set (map p_path_name (paths d))"
  shows "insert_path path_name d = Inl IntegrityError"
  using assms(2) by (simp add: insert_path_def fresh_id_Some [OF assms(1)])

lemma insert_path_stop_new:
  assumes "largest_key (seq_path_stops d) (map ps_id (path_stops d)) < max_rowid"
  shows "insert_path_stop pid sid k d =
     Inr (d\<lparr>path_stops := path_stops d @
               [\<lparr>ps_id = largest_key (seq_path_stops d) (map ps_id (path_stops d)) + 1,
                 ps_path_id = pid, ps_stop_id = sid, ps_seq = k\<rparr>],
             seq_path_stops := largest_key (seq_path_stops d) (map ps_id (path_stops d)) + 1\<rparr>)"
  by (simp add: insert_path_stop_def fresh_id_Some [OF assms])

lemma insert_route_new:
  assumes "largest_key (seq_routes d) (map r_route_id (routes d)) < max_rowid"
    and "n \<notin> set (map r_route_display_name (routes d))"
  shows "insert_route pid n shift dir a b ''active'' d =
     Inr (largest_key (seq_routes d) (map r_route_id (routes d)) + 1,
          d\<lparr>routes := routes d @
               [\<lparr>r_route_id = largest_key (seq_routes d) (map r_route_id (routes d)) + 1,
                 r_path_id = pid, r_route_display_name = n, r_shift_time = shift,
                 r_direction = dir, r_start_point = a, r_end_point = b, r_status = ''active''\<rparr>],
             seq_routes := largest_key (seq_routes d) (map r_route_id (routes d)) + 1\<rparr>)"
  using assms(2) by (simp add: insert_route_def fresh_id_Some [OF assms(1)])

lemma insert_route_dup:
  assumes "largest_key (seq_routes d) (map r_route_id (routes d)) < max_rowid"
    and "n \<in> set (map r_route_display_name (routes d))"
  shows "insert_route pid n shift dir a b st d = Inl IntegrityError"
  using assms(2) by (simp add: insert_route_def fresh_id_Some [OF assms(1)])

lemma create_stop_twice:
  assumes "distinct (map s_name (stops d))"
    and room: "largest_key (seq_stops d) (map s_stop_id (stops d)) + 2 \<le> max_rowid"
  shows "\<exists>m1 d1. create_stop name lat lon d = Inr (m1, d1)
       \<and> create_stop name lat' lon' d1 = Inr (''Stop '' @ quoted name @ '' already exists.'', d1)
       \<and> length (filter (\<lambda>s. s_name s = name) (stops d1)) = 1"
proof (cases "name \<in> set (map s_name (stops d))")
  case True
  from room have lt: "largest_key (seq_stops d) (map s_stop_id (stops d)) < max_rowid" by simp
  have dup: "create_stop name la lo d = Inr (''Stop '' @ quoted name @ '' already exists.'', d)"
    for la lo
    by (simp add: create_stop_def insert_stop_dup [OF lt True] except_integrity_def)
  have "length (filter (\<lambda>s. s_name s = name) (stops d)) = 1"
    using assms(1) True by (rule filter_key_length_one)
  with dup show ?thesis by blast
next
  case False
  let ?k = "largest_key (seq_stops d) (map s_stop_id (stops d)) + 1"
  let ?d1 = "d\<lparr>stops := stops d @
               [\<lparr>s_stop_id = ?k, s_name = name, s_latitude = lat, s_longitude = lon\<rparr>],
             seq_stops := ?k\<rparr>"
  from room have lt: "largest_key (seq_stops d) (map s_stop_id (stops d)) < max_rowid" by simp
  have first: "create_stop name lat lon d = Inr (''Created new stop '' @ quoted name @ ''.'', ?d1)"
    by (simp add: create_stop_def insert_stop_new [OF lt False])
  have "largest_key (seq_stops ?d1) (map s_stop_id (stops ?d1)) = ?k"
    by (simp add: largest_key_snoc)
  with room have lt1: "largest_key (seq_stops ?d1) (map s_stop_id (stops ?d1)) < max_rowid"
    by simp
  have mem: "name \<in> set (map s_name (stops ?d1))" by simp
  have second: "create_stop name lat' lon' ?d1 =
      Inr (''Stop '' @ quoted name @ '' already exists.'', ?d1)"
    by (simp only: create_stop_def insert_stop_dup [OF lt1 mem] except_integrity_def
        sum.case py_error.case)
  from False have f: "filter (\<lambda>s. s_name s = name) (stops d) = []"
    by (rule filter_no_key)
  have "length (filter (\<lambda>s. s_name s = name) (stops ?d1)) = 1"
    by (simp add: f)
  with first second show ?thesis by blast
qed

lemma add_path_stops_total:
  assumes "largest_key (seq_stops d) (map s_stop_id (stops d)) + int (length xs) \<le> max_rowid"
    and "largest_key (seq_path_stops d) (map ps_id (path_stops d)) + int (length xs) \<le> max_rowid"
  shows "\<exists>d'. add_path_stops pid xs d = Inr d' \<and> paths d' = paths d \<and> routes d' = routes d
       \<and> seq_paths d' = seq_paths d \<and> seq_routes d' = seq_routes d"
  using assms
proof (induction xs arbitrary: d)
  case Nil
  then show ?case by simp
next
  case (Cons a xs)
  obtain sq name where a: "a = (sq, name)" by (cases a)
  have step: "\<exists>d'. add_path_stops pid xs d1 = Inr d' \<and> paths d' = paths d0 \<and> routes d' = routes d0
       \<and> seq_paths d' = seq_paths d0 \<and> seq_routes d' = seq_routes d0"
    if ls: "largest_key (seq_stops d0) (map s_stop_id (stops d0)) + int (length xs) \<le> max_rowid"
      and lp: "largest_key (seq_path_stops d0) (map ps_id (path_stops d0)) + int (length xs) + 1
            \<le> max_rowid"
      and d1: "d1 = d0\<lparr>path_stops := path_stops d0 @
               [\<lparr>ps_id = largest_key (seq_path_stops d0) (map ps_id (path_stops d0)) + 1,
                 ps_path_id = pid, ps_stop_id = sid, ps_seq = int sq\<rparr>],
             seq_path_stops := largest_key (seq_path_stops d0) (map ps_id (path_stops d0)) + 1\<rparr>"
    for d0 d1 sid
  proof -
    have "largest_key (seq_stops d1) (map s_stop_id (stops d1)) + int (length xs) \<le> max_rowid"
      using ls by (simp add: d1)
    moreover have "largest_key (seq_path_stops d1) (map ps_id (path_stops d1)) + int (length xs)
        \<le> max_rowid"
      using lp by (simp add: d1 largest_key_snoc)
    ultimately obtain d' where "add_path_stops pid xs d1 = Inr d'" "paths d' = paths d1"
      "routes d' = routes d1" "seq_paths d' = seq_paths d1" "seq_routes d' = seq_routes d1"
      using Cons.IH [of d1] by blast
    then show ?thesis by (simp add: d1)
  qed
  show ?case
  proof (cases "fetchone [s_stop_id s. s \<leftarrow> stops d, s_name s = name]")
    case (Some sid)
    have lt: "largest_key (seq_path_stops d) (map ps_id (path_stops d)) < max_rowid"
      using Cons.prems(2) by simp
    have "largest_key (seq_stops d) (map s_stop_id (stops d)) + int (length xs) \<le> max_rowid"
      "largest_key (seq_path_stops d) (map ps_id (path_stops d)) + int (length xs) + 1 \<le> max_rowid"
      using Cons.prems by simp_all
    from step [OF this refl, of sid] show ?thesis
      by (simp add: a Some insert_path_stop_new [OF lt])
  next
    case None
    then have new: "name \<notin> set (map s_name (stops d))"
      using fetchone_None_key [of s_name name s_stop_id "stops d"] by blast
    let ?k = "largest_key (seq_stops d) (map s_stop_id (stops d)) + 1"
    let ?d0 = "d\<lparr>stops := stops d @
                 [\<lparr>s_stop_id = ?k, s_name = name, s_latitude = None, s_longitude = None\<rparr>],
               seq_stops := ?k\<rparr>"
    have lt_s: "largest_key (seq_stops d) (map s_stop_id (stops d)) < max_rowid"
      using Cons.prems(1) by simp
    have lt_p: "largest_key (seq_path_stops ?d0) (map ps_id (path_stops ?d0)) < max_rowid"
      using Cons.prems(2) by simp
    have "largest_key (seq_stops ?d0) (map s_stop_id (stops ?d0)) + int (length xs) \<le> max_rowid"
      "largest_key (seq_path_stops ?d0) (map ps_id (path_stops ?d0)) + int (length xs) + 1
         \<le> max_rowid"
      using Cons.prems by (simp_all add: largest_key_snoc)
    from step [OF this refl, of ?k] show ?thesis
      by (simp add: a None insert_stop_new [OF lt_s new] insert_path_stop_new [OF lt_p])
  qed
qed

lemma create_path_twice:
  assumes "distinct (map p_path_name (paths d))" and "stop_names \<noteq> []" and "stop_names' \<noteq> []"
    and room: "largest_key (seq_paths d) (map p_path_id (paths d)) + 2 \<le> max_rowid"
    and room_s: "largest_key (seq_stops d) (map s_stop_id (stops d)) + int (length stop_names)
          \<le> max_rowid"
    and room_p: "largest_key (seq_path_stops d) (map ps_id (path_stops d)) + int (length stop_names)
          \<le> max_rowid"
  shows "\<exists>m1 d1. create_path path_name stop_names d = Inr (m1, d1)
       \<and> create_path path_name stop_names' d1 =
           Inr (''Path '' @ quoted path_name @ '' already exists.'', d1)
       \<and> length (filter (\<lambda>p. p_path_name p = path_name) (paths d1)) = 1"
proof (cases "path_name \<in> set (map p_path_name (paths d))")
  case True
  from room have lt: "largest_key (seq_paths d) (map p_path_id (paths d)) < max_rowid" by simp
  have dup: "create_path path_name ss d = Inr (''Path '' @ quoted path_name @ '' already exists.'', d)"
    if "ss \<noteq> []" for ss
    using that by (simp add: create_path_def insert_path_dup [OF lt True] except_integrity_def)
  have "length (filter (\<lambda>p. p_path_name p = path_name) (paths d)) = 1"
    using assms(1) True by (rule filter_key_length_one)
  with dup [OF assms(2)] dup [OF assms(3)] show ?thesis by blast
next
  case False
  let ?k = "largest_key (seq_paths d) (map p_path_id (paths d)) + 1"
  let ?d1 = "d\<lparr>paths := paths d @ [\<lparr>p_path_id = ?k, p_path_name = path_name\<rparr>], seq_paths := ?k\<rparr>"
  from room have lt: "largest_key (seq_paths d) (map p_path_id (paths d)) < max_rowid" by simp
  note ins = insert_path_new [OF lt False]
  have "largest_key (seq_stops ?d1) (map s_stop_id (stops ?d1)) +
          int (length (enumerate 1 stop_names)) \<le> max_rowid"
    "largest_key (seq_path_stops ?d1) (map ps_id (path_stops ?d1)) +
          int (length (enumerate 1 stop_names)) \<le> max_rowid"
    using room_s room_p by simp_all
  from add_path_stops_total [OF this, of ?k]
  obtain d2 where d2: "add_path_stops ?k (enumerate 1 stop_names) ?d1 = Inr d2"
    and p2: "paths d2 = paths ?d1" and q2: "seq_paths d2 = seq_paths ?d1"
    by blast
  have first: "create_path path_name stop_names d =
      Inr (''Created path '' @ quoted path_name @ '' with stops: '' @ join arrow stop_names, d2)"
    using assms(2) d2 by (simp add: create_path_def ins)
  have "largest_key (seq_paths d2) (map p_path_id (paths d2)) = ?k"
    by (simp add: p2 q2 largest_key_snoc)
  with room have lt2: "largest_key (seq_paths d2) (map p_path_id (paths d2)) < max_rowid"
    by simp
  have mem: "path_name \<in> set (map p_path_name (paths d2))"
    by (simp add: p2)
  have second: "create_path path_name stop_names' d2 =
      Inr (''Path '' @ quoted path_name @ '' already exists.'', d2)"
    using assms(3) by (simp add: create_path_def insert_path_dup [OF lt2 mem] except_integrity_def)
  from False have f: "filter (\<lambda>p. p_path_name p = path_name) (paths d) = []"
    by (rule filter_no_key)
  have "length (filter (\<lambda>p. p_path_name p = path_name) (paths d2)) = 1"
    by (simp add: p2 f)
  with first second show ?thesis by blast
qed

lemma create_route_twice:
  assumes "distinct (map r_route_display_name (routes d))"
    and "select_path d path_name = Some pid" and "path_stop_names d pid \<noteq> []"
    and room: "largest_key (seq_routes d) (map r_route_id (routes d)) + 2 \<le> max_rowid"
  shows "\<exists>m1 d1. create_route path_name shift_time direction d = Inr (m1, d1)
       \<and> create_route path_name shift_time direction' d1 =
           Inr (''Route '' @ quoted (path_name @ '' - '' @ shift_time) @ '' already exists.'', d1)
       \<and> length (filter (\<lambda>r. r_route_display_name r = path_name @ '' - '' @ shift_time)
            (routes d1)) = 1"
proof -
  let ?n = "path_name @ '' - '' @ shift_time"
  have again: "create_route path_name shift_time dir d' =
      Inr (''Route '' @ quoted ?n @ '' already exists.'', d')"
    if "select_path d' path_name = Some pid" "path_stop_names d' pid \<noteq> []"
      "?n \<in> set (map r_route_display_name (routes d'))"
      "largest_key (seq_routes d') (map r_route_id (routes d')) < max_rowid" for d' dir
    using that(1,2) insert_route_dup [OF that(4,3), of pid shift_time dir
        "hd (path_stop_names d' pid)" "last (path_stop_names d' pid)" "''active''"]
    by (simp add: create_route_def except_integrity_def Let_def)
  from room have lt: "largest_key (seq_routes d) (map r_route_id (routes d)) < max_rowid" by simp
  show ?thesis
  proof (cases "?n \<in> set (map r_route_display_name (routes d))")
    case True
    have "length (filter (\<lambda>r. r_route_display_name r = ?n) (routes d)) = 1"
      using assms(1) True by (rule filter_key_length_one)
    with again [OF assms(2,3) True lt] show ?thesis by blast
  next
    case False
    let ?k = "largest_key (seq_routes d) (map r_route_id (routes d)) + 1"
    let ?row = "\<lparr>r_route_id = ?k, r_path_id = pid, r_route_display_name = ?n,
        r_shift_time = shift_time, r_direction = direction,
        r_start_point = hd (path_stop_names d pid), r_end_point = last (path_stop_names d pid),
        r_status = ''active''\<rparr>"
    let ?d1 = "d\<lparr>routes := routes d @ [?row], seq_routes := ?k\<rparr>"
    have first: "create_route path_name shift_time direction d =
        Inr (''Created route '' @ quoted ?n @ '' ('' @ direction @ '') from '' @
             hd (path_stop_names d pid) @ '' to '' @ last (path_stop_names d pid) @ ''.'', ?d1)"
      using assms(2,3) insert_route_new [OF lt False, of pid shift_time direction
          "hd (path_stop_names d pid)" "last (path_stop_names d pid)"]
      by (simp add: create_route_def Let_def)
    have sp: "select_path ?d1 path_name = Some pid"
      using assms(2) by (simp add: select_path_def)
    have ps: "path_stop_names ?d1 pid \<noteq> []"
      using assms(3) by (simp add: path_stop_names_def path_stop_rows_def)
    have mem: "?n \<in> set (map r_route_display_name (routes ?d1))" by simp
    have "largest_key (seq_routes ?d1) (map r_route_id (routes ?d1)) = ?k"
      by (simp add: largest_key_snoc)
    with room have lt1: "largest_key (seq_routes ?d1) (map r_route_id (routes ?d1)) < max_rowid"
      by simp
    from False have f: "filter (\<lambda>r. r_route_display_name r = ?n) (routes d) = []"
      by (rule filter_no_key)
    have "length (filter (\<lambda>r. r_route_display_name r = ?n) (routes ?d1)) = 1"
      using f by simp
    with first again [OF sp ps mem lt1] show ?thesis by blast
  qed
qed

text \<open>
  C5. Creation is idempotent by uniqueness. After a first \<open>create_stop\<close>, a second call
  with the same name answers \<open>already exists\<close>, changes nothing, and exactly one stop
  of that name is stored. The same holds for \<open>create_path\<close> (both calls with a
  non-empty stop list) and for \<open>create_route\<close> on an existing path that has stops,
  where the name is the derived \<open>path_name - shift_time\<close>. Keys must be left for the
  \<open>INSERT\<close>s of both calls: two for the stops, the paths and the routes, and one per
  listed stop for the stops and the \<open>path_stops\<close> that \<open>create_path\<close> may add;
  without a key the call leaves with \<open>sqlite3.OperationalError\<close> instead.
\<close>

theorem creation_idempotent:
  assumes "distinct (map s_name (stops d))"
    and "distinct (map p_path_name (paths d))"
    and "distinct (map r_route_display_name (routes d))"
    and "stop_names \<noteq> []" and "stop_names' \<noteq> []"
    and "select_path d pn = Some pid" and "path_stop_names d pid \<noteq> []"
    and "largest_key (seq_stops d) (map s_stop_id (stops d)) + 2 \<le> max_rowid"
    and "largest_key (seq_paths d) (map p_path_id (paths d)) + 2 \<le> max_rowid"
    and "largest_key (seq_routes d) (map r_route_id (routes d)) + 2 \<le> max_rowid"
    and "largest_key (seq_stops d) (map s_stop_id (stops d)) + int (length stop_names)
          \<le> max_rowid"
    and "largest_key (seq_path_stops d) (map ps_id (path_stops d)) + int (length stop_names)
          \<le> max_rowid"
  shows "(\<exists>m1 d1. create_stop name lat lon d = Inr (m1, d1)
          \<and> create_stop name lat' lon' d1 = Inr (''Stop '' @ quoted name @ '' already exists.'', d1)
          \<and> length (filter (\<lambda>s. s_name s = name) (stops d1)) = 1)
       \<and> (\<exists>m1 d1. create_path path_name stop_names d = Inr (m1, d1)
          \<and> create_path path_name stop_names' d1 =
              Inr (''Path '' @ quoted path_name @ '' already exists.'', d1)
          \<and> length (filter (\<lambda>p. p_path_name p = path_name) (paths d1)) = 1)
       \<and> (\<exists>m1 d1. create_route pn shift_time direction d = Inr (m1, d1)
          \<and> create_route pn shift_time direction' d1 =
              Inr (''Route '' @ quoted (pn @ '' - '' @ shift_time) @ '' already exists.'', d1)
          \<and> length (filter (\<lambda>r. r_route_display_name r = pn @ '' - '' @ shift_time)
               (routes d1)) = 1)"
  using create_stop_twice [OF assms(1,8)] create_path_twice [OF assms(2,4,5,9,11,12)]
    create_route_twice [OF assms(3,6,7,10)]
  by (intro conjI) blast+

theorem creation_idempotent_witness:
  "(\<exists>m1 d1. create_stop ''Odeon'' (Some 12.9) (Some 77.5) seed_db = Inr (m1, d1)
          \<and> create_stop ''Odeon'' None None d1 =
              Inr (''Stop '' @ quoted ''Odeon'' @ '' already exists.'', d1)
          \<and> length (filter (\<lambda>s. s_name s = ''Odeon'') (stops d1)) = 1)
       \<and> (\<exists>m1 d1. create_path ''Path-3'' [''Temple'', ''Odeon''] seed_db = Inr (m1, d1)
          \<and> create_path ''Path-3'' [''Temple''] d1 =
              Inr (''Path '' @ quoted ''Path-3'' @ '' already exists.'', d1)
          \<and> length (filter (\<lambda>p. p_path_name p = ''Path-3'') (paths d1)) = 1)
       \<and> (\<exists>m1 d1. create_route ''Path-1'' ''10:00'' ''IN'' seed_db = Inr (m1, d1)
          \<and> create_route ''Path-1'' ''10:00'' ''OUT'' d1 =
              Inr (''Route '' @ quoted (''Path-1'' @ '' - '' @ ''10:00'') @ '' already exists.'', d1)
          \<and> length (filter (\<lambda>r. r_route_display_name r = ''Path-1'' @ '' - '' @ ''10:00'')
               (routes d1)) = 1)"
proof -
  have h: "distinct (map s_name (stops seed_db))"
    "distinct (map p_path_name (paths seed_db))"
    "distinct (map r_route_display_name (routes seed_db))"
    "[''Temple'', ''Odeon''] \<noteq> []" "[''Temple''] \<noteq> []"
    "select_path seed_db ''Path-1'' = Some 1"
    by (simp_all add: seed_db_def select_path_def fetchone_def)
  have "path_stop_names seed_db 1 = [''Gavipuram'', ''Temple'', ''Peenya'']"
    by (simp add: seed_db_def path_stop_names_def path_stop_rows_def)
  then have p: "path_stop_names seed_db 1 \<noteq> []" by simp
  have r: "largest_key (seq_stops seed_db) (map s_stop_id (stops seed_db)) + 2 \<le> max_rowid"
    "largest_key (seq_paths seed_db) (map p_path_id (paths seed_db)) + 2 \<le> max_rowid"
    "largest_key (seq_routes seed_db) (map r_route_id (routes seed_db)) + 2 \<le> max_rowid"
    "largest_key (seq_stops seed_db) (map s_stop_id (stops seed_db)) +
       int (length [''Temple'', ''Odeon'']) \<le> max_rowid"
    "largest_key (seq_path_stops seed_db) (map ps_id (path_stops seed_db)) +
       int (length [''Temple'', ''Odeon'']) \<le> max_rowid"
    by (simp_all add: seed_db_def largest_key_def max_rowid_def)
  show ?thesis
    by (rule creation_idempotent [OF h p r])
qed

section \<open>Created routes are active\<close>

lemma sublist_append_left: "sublist x ys \<Longrightarrow> sublist x (zs @ ys)"
  unfolding sublist_def by (metis append.assoc)

lemma sublist_join:
  "x \<in> set xs \<Longrightarrow> sublist x (join sep xs)"
proof (induction sep xs rule: join.induct)
  case (1 sep)
  then show ?case by simp
next
  case (2 sep y)
  then show ?case by simp
next
  case (3 sep y z zs)
  show ?case
  proof (cases "x = y")
    case True
    then show ?thesis by simp
  next
    case False
    with 3 have "sublist x (join sep (z # zs))" by simp
    then have "sublist x ((y @ sep) @ join sep (z # zs))"
      by (rule sublist_append_left)
    then show ?thesis by simp
  qed
qed

lemma create_route_created:
  assumes "select_path d path_name = Some pid"
    and "path_stop_names d pid \<noteq> []"
    and "path_name @ '' - '' @ shift_time \<notin> set (map r_route_display_name (routes d))"
    and "largest_key (seq_routes d) (map r_route_id (routes d)) < max_rowid"
  shows "create_route path_name shift_time direction d =
     Inr (''Created route '' @ quoted (path_name @ '' - '' @ shift_time) @ '' ('' @ direction @
        '') from '' @ hd (path_stop_names d pid) @ '' to '' @ last (path_stop_names d pid) @ ''.'',
      d\<lparr>routes := routes d @
           [\<lparr>r_route_id = largest_key (seq_routes d) (map r_route_id (routes d)) + 1,
             r_path_id = pid,
             r_route_display_name = path_name @ '' - '' @ shift_time, r_shift_time = shift_time,
             r_direction = direction, r_start_point = hd (path_stop_names d pid),
             r_end_point = last (path_stop_names d pid), r_status = ''active''\<rparr>],
         seq_routes := largest_key (seq_routes d) (map r_route_id (routes d)) + 1\<rparr>)"
  using assms(1,2) insert_route_new [OF assms(4,3), of pid shift_time direction
      "hd (path_stop_names d pid)" "last (path_stop_names d pid)"]
  by (simp add: create_route_def Let_def)

lemma active_route_listed:
  assumes "r \<in> set (routes d)" and "r_status r = ''active''"
  shows "sublist (route_line r) (list_active_routes d)"
proof -
  let ?rows = "sort_key r_shift_time [r \<leftarrow> routes d. r_status r = ''active'']"
  from assms have mem: "r \<in> set ?rows" by simp
  then have ne: "?rows \<noteq> []" by (metis empty_iff list.set(1))
  from mem have "route_line r \<in> set (map route_line ?rows)" unfolding set_map by (rule imageI)
  then have "sublist (route_line r) (join [CHR 0x0A] (map route_line ?rows))"
    by (rule sublist_join)
  then have "sublist (route_line r)
      ((''Active routes:'' @ [CHR 0x0A]) @ join [CHR 0x0A] (map route_line ?rows))"
    by (rule sublist_append_left)
  then show ?thesis
    using ne unfolding list_active_routes_def Let_def by (simp del: set_sort sort_key_simps)
qed

text \<open>
  C10. A route that \<open>create_route\<close> creates (the path exists and has stops, the derived
  name is new, a key is left for the row) is appended with status \<open>active\<close>, and
  right after the call its line \<open>- name (direction @ shift)\<close> is part of the output
  of \<open>list_active_routes\<close>.
\<close>

theorem created_route_is_active:
  assumes "select_path d path_name = Some pid"
    and "path_stop_names d pid \<noteq> []"
    and "path_name @ '' - '' @ shift_time \<notin> set (map r_route_display_name (routes d))"
    and "largest_key (seq_routes d) (map r_route_id (routes d)) < max_rowid"
  shows "\<exists>m d' r. create_route path_name shift_time direction d = Inr (m, d')
       \<and> routes d' = routes d @ [r]
       \<and> r_route_display_name r = path_name @ '' - '' @ shift_time
       \<and> r_shift_time r = shift_time \<and> r_direction r = direction
       \<and> r_status r = ''active''
       \<and> prefix ''Created route '' m
       \<and> sublist (''- '' @ path_name @ '' - '' @ shift_time @ '' ('' @ direction @ '' @ '' @ shift_time @ '')'')
            (list_active_routes d')"
proof -
  let ?r = "\<lparr>r_route_id = largest_key (seq_routes d) (map r_route_id (routes d)) + 1,
             r_path_id = pid,
             r_route_display_name = path_name @ '' - '' @ shift_time, r_shift_time = shift_time,
             r_direction = direction, r_start_point = hd (path_stop_names d pid),
             r_end_point = last (path_stop_names d pid), r_status = ''active''\<rparr>"
  let ?d' = "d\<lparr>routes := routes d @ [?r],
         seq_routes := largest_key (seq_routes d) (map r_route_id (routes d)) + 1\<rparr>"
  let ?m = "''Created route '' @ quoted (path_name @ '' - '' @ shift_time) @ '' ('' @ direction @
        '') from '' @ hd (path_stop_names d pid) @ '' to '' @ last (path_stop_names d pid) @ ''.''"
  have eq: "create_route path_name shift_time direction d = Inr (?m, ?d')"
    by (rule create_route_created [OF assms])
  have "sublist (route_line ?r) (list_active_routes ?d')"
    by (rule active_route_listed) simp_all
  then have listed: "sublist (''- '' @ path_name @ '' - '' @ shift_time @ '' ('' @ direction @ '' @ '' @ shift_time @ '')'')
      (list_active_routes ?d')"
    by (simp add: route_line_def)
  have pre: "prefix ''Created route '' ?m" by simp
  have "routes ?d' = routes d @ [?r]" "r_route_display_name ?r = path_name @ '' - '' @ shift_time"
    "r_shift_time ?r = shift_time" "r_direction ?r = direction" "r_status ?r = ''active''"
    by simp_all
  with eq pre listed show ?thesis by blast
qed

theorem created_route_is_active_witness:
  "\<exists>m d' r. create_route ''Path-2'' ''09:15'' ''OUT'' seed_db = Inr (m, d')
       \<and> routes d' = routes seed_db @ [r]
       \<and> r_route_display_name r = ''Path-2'' @ '' - '' @ ''09:15''
       \<and> r_shift_time r = ''09:15'' \<and> r_direction r = ''OUT''
       \<and> r_status r = ''active''
       \<and> prefix ''Created route '' m
       \<and> sublist (''- '' @ ''Path-2'' @ '' - '' @ ''09:15'' @ '' ('' @ ''OUT'' @ '' @ '' @ ''09:15'' @ '')'')
            (list_active_routes d')"
proof -
  have 1: "select_path seed_db ''Path-2'' = Some 2"
    by (simp add: seed_db_def select_path_def fetchone_def)
  have "path_stop_names seed_db 2 = [''Peenya'', ''Majestic'', ''Tech Park'']"
    by (simp add: seed_db_def path_stop_names_def path_stop_rows_def)
  then have 2: "path_stop_names seed_db 2 \<noteq> []" by simp
  have 3: "''Path-2'' @ '' - '' @ ''09:15'' \<notin> set (map r_route_display_name (routes seed_db))"
    by (simp add: seed_db_def)
  have 4: "largest_key (seq_routes seed_db) (map r_route_id (routes seed_db)) < max_rowid"
    by (simp add: seed_db_def largest_key_def max_rowid_def)
  show ?thesis
    by (rule created_route_is_active [OF 1 2 3 4])
qed

section \<open>The order of the stops of a path\<close>

lemma insort_key_snoc:
  "f a \<le> f y \<Longrightarrow> insort_key f a (zs @ [y]) = insort_key f a zs @ [y]"
  by (induction zs) auto

lemma sort_key_snoc:
  "\<forall>x\<in>set xs. f x \<le> f y \<Longrightarrow> sort_key f (xs @ [y]) = sort_key f xs @ [y]"
proof (induction xs)
  case Nil
  then show ?case by simp
next
  case (Cons a xs)
  then have "sort_key f (xs @ [y]) = sort_key f xs @ [y]" by simp
  moreover from Cons.prems have "f a \<le> f y" by simp
  ultimately show ?case by (simp add: insort_key_snoc)
qed

lemma path_stop_rows_key:
  assumes "x \<in> set (path_stop_rows d pid)"
  shows "\<exists>ps\<in>set (path_stops d). ps_path_id ps = pid \<and> fst x = ps_seq ps"
  using assms unfolding path_stop_rows_def by (auto split: if_splits)

lemma path_stop_rows_insert_row:
  assumes "distinct (map s_stop_id (stops d))" and "s \<in> set (stops d)"
  shows "path_stop_rows
           (d\<lparr>path_stops := path_stops d @
                [\<lparr>ps_id = i, ps_path_id = pid, ps_stop_id = s_stop_id s, ps_seq = k\<rparr>],
              seq_path_stops := q\<rparr>) pid =
         path_stop_rows d pid @ [(k, s_name s)]"
proof -
  have "filter (\<lambda>s'. s_stop_id s' = s_stop_id s) (stops d) = [s]"
    using assms by (rule filter_unique_key)
  then have "concat (map (\<lambda>s'. if s_stop_id s' = s_stop_id s then [(k, s_name s')] else []) (stops d))
      = [(k, s_name s)]"
    by (simp add: comprehension_filter)
  then show ?thesis
    unfolding path_stop_rows_def by (simp cong: if_cong)
qed

lemma path_stop_rows_insert_stop:
  assumes "\<forall>ps\<in>set (path_stops d). ps_path_id ps = pid \<longrightarrow> ps_stop_id ps \<noteq> s_stop_id new"
  shows "path_stop_rows (d\<lparr>stops := stops d @ [new], seq_stops := q\<rparr>) pid = path_stop_rows d pid"
proof -
  have "concat (map (\<lambda>s. if s_stop_id s = ps_stop_id ps
                          then if ps_path_id ps = pid then [(ps_seq ps, s_name s)] else [] else [])
          (stops d @ [new]))
      = concat (map (\<lambda>s. if s_stop_id s = ps_stop_id ps
                          then if ps_path_id ps = pid then [(ps_seq ps, s_name s)] else [] else [])
          (stops d))" if "ps \<in> set (path_stops d)" for ps
    using assms that by auto
  then show ?thesis
    unfolding path_stop_rows_def by (simp cong: map_cong)
qed

lemma insert_path_stop_step:
  assumes ids: "distinct (map s_stop_id (stops d))"
    and s: "s \<in> set (stops d)"
    and inv: "\<forall>ps\<in>set (path_stops d). ps_path_id ps = pid \<longrightarrow>
               ps_seq ps < int k \<and> ps_stop_id ps \<in> set (map s_stop_id (stops d))"
    and d1: "d1 = d\<lparr>path_stops := path_stops d @
                [\<lparr>ps_id = i, ps_path_id = pid, ps_stop_id = s_stop_id s, ps_seq = int k\<rparr>],
              seq_path_stops := q\<rparr>"
  shows "\<forall>ps\<in>set (path_stops d1). ps_path_id ps = pid \<longrightarrow>
               ps_seq ps < int (Suc k) \<and> ps_stop_id ps \<in> set (map s_stop_id (stops d1))"
    and "path_stop_names d1 pid = path_stop_names d pid @ [s_name s]"
proof -
  show "\<forall>ps\<in>set (path_stops d1). ps_path_id ps = pid \<longrightarrow>
               ps_seq ps < int (Suc k) \<and> ps_stop_id ps \<in> set (map s_stop_id (stops d1))"
    using inv s by (auto simp: d1)
  have le: "\<forall>x\<in>set (path_stop_rows d pid). fst x \<le> fst (int k, s_name s)"
  proof
    fix x assume "x \<in> set (path_stop_rows d pid)"
    then obtain ps where "ps \<in> set (path_stops d)" "ps_path_id ps = pid" "fst x = ps_seq ps"
      using path_stop_rows_key by blast
    with inv show "fst x \<le> fst (int k, s_name s)" by auto
  qed
  show "path_stop_names d1 pid = path_stop_names d pid @ [s_name s]"
    unfolding path_stop_names_def d1 path_stop_rows_insert_row [OF ids s]
    by (simp add: sort_key_snoc [OF le])
qed

lemma add_path_stops_names:
  assumes "distinct (map s_stop_id (stops d))" and "distinct (map s_name (stops d))"
    and "\<forall>ps\<in>set (path_stops d). ps_path_id ps = pid \<longrightarrow>
               ps_seq ps < int k \<and> ps_stop_id ps \<in> set (map s_stop_id (stops d))"
    and "largest_key (seq_stops d) (map s_stop_id (stops d)) + int (length names) \<le> max_rowid"
    and "largest_key (seq_path_stops d) (map ps_id (path_stops d)) + int (length names)
          \<le> max_rowid"
  shows "\<exists>d'. add_path_stops pid (enumerate k names) d = Inr d'
       \<and> path_stop_names d' pid = path_stop_names d pid @ names
       \<and> paths d' = paths d \<and> routes d' = routes d \<and> seq_routes d' = seq_routes d"
  using assms
proof (induction names arbitrary: k d)
  case Nil
  then show ?case by simp
next
  case (Cons n ns)
  (* the row is appended to a database d0 that holds the stop s *)
  have step: "\<exists>d'. add_path_stops pid (enumerate (Suc k) ns) d1 = Inr d'
       \<and> path_stop_names d' pid = (path_stop_names d0 pid @ [s_name s]) @ ns
       \<and> paths d' = paths d0 \<and> routes d' = routes d0 \<and> seq_routes d' = seq_routes d0"
    if ids: "distinct (map s_stop_id (stops d0))" and nms: "distinct (map s_name (stops d0))"
      and s: "s \<in> set (stops d0)"
      and inv: "\<forall>ps\<in>set (path_stops d0). ps_path_id ps = pid \<longrightarrow>
               ps_seq ps < int k \<and> ps_stop_id ps \<in> set (map s_stop_id (stops d0))"
      and ls: "largest_key (seq_stops d0) (map s_stop_id (stops d0)) + int (length ns) \<le> max_rowid"
      and lp: "largest_key (seq_path_stops d0) (map ps_id (path_stops d0)) + int (length ns) + 1
            \<le> max_rowid"
      and d1: "d1 = d0\<lparr>path_stops := path_stops d0 @
               [\<lparr>ps_id = largest_key (seq_path_stops d0) (map ps_id (path_stops d0)) + 1,
                 ps_path_id = pid, ps_stop_id = s_stop_id s, ps_seq = int k\<rparr>],
             seq_path_stops := largest_key (seq_path_stops d0) (map ps_id (path_stops d0)) + 1\<rparr>"
    for d0 d1 s
  proof -
    note st = insert_path_stop_step [OF ids s inv d1]
    have "distinct (map s_stop_id (stops d1))" "distinct (map s_name (stops d1))"
      using ids nms by (simp_all add: d1)
    moreover note st(1)
    moreover have "largest_key (seq_stops d1) (map s_stop_id (stops d1)) + int (length ns)
        \<le> max_rowid"
      using ls by (simp add: d1)
    moreover have "largest_key (seq_path_stops d1) (map ps_id (path_stops d1)) + int (length ns)
        \<le> max_rowid"
      using lp by (simp add: d1 largest_key_snoc)
    ultimately obtain d' where "add_path_stops pid (enumerate (Suc k) ns) d1 = Inr d'"
      "path_stop_names d' pid = path_stop_names d1 pid @ ns"
      "paths d' = paths d1" "routes d' = routes d1" "seq_routes d' = seq_routes d1"
      using Cons.IH [of d1 "Suc k"] by blast
    then show ?thesis by (simp add: st(2)) (simp add: d1)
  qed
  have lt_p: "largest_key (seq_path_stops d) (map ps_id (path_stops d)) < max_rowid"
    using Cons.prems(5) by simp
  show ?case
  proof (cases "n \<in> set (map s_name (stops d))")
    case True
    then obtain s where s: "s \<in> set (stops d)" "s_name s = n" by auto
    have look: "fetchone [s_stop_id s. s \<leftarrow> stops d, s_name s = n] = Some (s_stop_id s)"
      using fetchone_unique_key [OF Cons.prems(2) s(1), of s_stop_id] s(2) by simp
    have "largest_key (seq_stops d) (map s_stop_id (stops d)) + int (length ns) \<le> max_rowid"
      "largest_key (seq_path_stops d) (map ps_id (path_stops d)) + int (length ns) + 1 \<le> max_rowid"
      using Cons.prems(4,5) by simp_all
    from step [OF Cons.prems(1,2) s(1) Cons.prems(3) this refl]
    show ?thesis
      by (simp add: look insert_path_stop_new [OF lt_p] s(2))
  next
    case False
    then have look: "fetchone [s_stop_id s. s \<leftarrow> stops d, s_name s = n] = None"
      by (rule fetchone_no_key)
    let ?k = "largest_key (seq_stops d) (map s_stop_id (stops d)) + 1"
    let ?new = "\<lparr>s_stop_id = ?k, s_name = n, s_latitude = None, s_longitude = None\<rparr>"
    let ?d0 = "d\<lparr>stops := stops d @ [?new], seq_stops := ?k\<rparr>"
    have lt_s: "largest_key (seq_stops d) (map s_stop_id (stops d)) < max_rowid"
      using Cons.prems(4) by simp
    note ins = insert_stop_new [OF lt_s False, of None None]
    have fresh: "?k \<notin> set (map s_stop_id (stops d))"
      using largest_key_ge(2) [of ?k "map s_stop_id (stops d)" "seq_stops d"] by auto
    have ids0: "distinct (map s_stop_id (stops ?d0))"
      using Cons.prems(1) fresh by simp
    have names0: "distinct (map s_name (stops ?d0))"
      using Cons.prems(2) False by simp
    have inv0: "\<forall>ps\<in>set (path_stops ?d0). ps_path_id ps = pid \<longrightarrow>
               ps_seq ps < int k \<and> ps_stop_id ps \<in> set (map s_stop_id (stops ?d0))"
      using Cons.prems(3) by auto
    have "\<forall>ps\<in>set (path_stops d). ps_path_id ps = pid \<longrightarrow> ps_stop_id ps \<noteq> s_stop_id ?new"
    proof (intro ballI impI)
      fix ps assume "ps \<in> set (path_stops d)" "ps_path_id ps = pid"
      with Cons.prems(3) have "ps_stop_id ps \<in> set (map s_stop_id (stops d))" by blast
      with fresh have "ps_stop_id ps \<noteq> ?k" by metis
      then show "ps_stop_id ps \<noteq> s_stop_id ?new" by simp
    qed
    then have rows0: "path_stop_rows ?d0 pid = path_stop_rows d pid"
      by (rule path_stop_rows_insert_stop)
    then have names00: "path_stop_names ?d0 pid = path_stop_names d pid"
      by (simp add: path_stop_names_def)
    have mem: "?new \<in> set (stops ?d0)" by simp
    have lt_p0: "largest_key (seq_path_stops ?d0) (map ps_id (path_stops ?d0)) < max_rowid"
      using lt_p by simp
    have "largest_key (seq_stops ?d0) (map s_stop_id (stops ?d0)) + int (length ns) \<le> max_rowid"
      "largest_key (seq_path_stops ?d0) (map ps_id (path_stops ?d0)) + int (length ns) + 1
         \<le> max_rowid"
      using Cons.prems(4,5) by (simp_all add: largest_key_snoc)
    from step [OF ids0 names0 mem inv0 this refl]
    show ?thesis
      unfolding names00
      by (simp add: look ins insert_path_stop_new [OF lt_p0])
  qed
qed

lemma create_path_created:
  assumes "distinct (map s_stop_id (stops d))" and "distinct (map s_name (stops d))"
    and "\<forall>ps\<in>set (path_stops d). ps_path_id ps \<le> seq_paths d"
    and "path_name \<notin> set (map p_path_name (paths d))" and "stop_names \<noteq> []"
    and "largest_key (seq_paths d) (map p_path_id (paths d)) < max_rowid"
    and "largest_key (seq_stops d) (map s_stop_id (stops d)) + int (length stop_names)
          \<le> max_rowid"
    and "largest_key (seq_path_stops d) (map ps_id (path_stops d)) + int (length stop_names)
          \<le> max_rowid"
  shows "\<exists>d2 pid. create_path path_name stop_names d =
           Inr (''Created path '' @ quoted path_name @ '' with stops: '' @ join arrow stop_names, d2)
       \<and> select_path d2 path_name = Some pid
       \<and> path_stop_names d2 pid = stop_names
       \<and> routes d2 = routes d \<and> seq_routes d2 = seq_routes d"
proof -
  let ?pid = "largest_key (seq_paths d) (map p_path_id (paths d)) + 1"
  let ?d1 = "d\<lparr>paths := paths d @ [\<lparr>p_path_id = ?pid, p_path_name = path_name\<rparr>],
               seq_paths := ?pid\<rparr>"
  note ins = insert_path_new [OF assms(6,4)]
  have none: "ps_path_id ps \<noteq> ?pid" if "ps \<in> set (path_stops d)" for ps
    using assms(3) that largest_key_ge(1) [of "seq_paths d" "map p_path_id (paths d)"] by force
  have rows: "path_stop_rows ?d1 ?pid = []"
  proof (cases "path_stop_rows ?d1 ?pid")
    case Nil
    then show ?thesis .
  next
    case (Cons x xs)
    then have "x \<in> set (path_stop_rows ?d1 ?pid)" by simp
    then obtain ps where "ps \<in> set (path_stops ?d1)" "ps_path_id ps = ?pid"
      using path_stop_rows_key by blast
    with none show ?thesis by simp
  qed
  then have empty: "path_stop_names ?d1 ?pid = []"
    by (simp add: path_stop_names_def)
  have inv: "\<forall>ps\<in>set (path_stops ?d1). ps_path_id ps = ?pid \<longrightarrow>
               ps_seq ps < int 1 \<and> ps_stop_id ps \<in> set (map s_stop_id (stops ?d1))"
    using none by simp
  have "distinct (map s_stop_id (stops ?d1))" "distinct (map s_name (stops ?d1))"
    using assms(1,2) by simp_all
  moreover note inv
  moreover have "largest_key (seq_stops ?d1) (map s_stop_id (stops ?d1)) + int (length stop_names)
      \<le> max_rowid"
    "largest_key (seq_path_stops ?d1) (map ps_id (path_stops ?d1)) + int (length stop_names)
      \<le> max_rowid"
    using assms(7,8) by simp_all
  ultimately obtain d2 where d2: "add_path_stops ?pid (enumerate 1 stop_names) ?d1 = Inr d2"
    and names: "path_stop_names d2 ?pid = path_stop_names ?d1 ?pid @ stop_names"
    and same: "paths d2 = paths ?d1" "routes d2 = routes ?d1" "seq_routes d2 = seq_routes ?d1"
    using add_path_stops_names [of ?d1 ?pid 1 stop_names] by blast
  have res: "create_path path_name stop_names d =
      Inr (''Created path '' @ quoted path_name @ '' with stops: '' @ join arrow stop_names, d2)"
    using assms(5) d2 by (simp add: create_path_def ins)
  from assms(4) have f: "filter (\<lambda>p. p_path_name p = path_name) (paths d) = []"
    by (rule filter_no_key)
  have sel: "select_path d2 path_name = Some ?pid"
    unfolding select_path_def same(1)
    by (simp add: comprehension_filter f fetchone_def)
  from res sel names empty same show ?thesis by simp
qed

text \<open>
  C7. The order of the stops round-trips. When \<open>create_path\<close> creates a path (a new
  name, a non-empty stop list), \<open>list_stops_for_path\<close> returns the stop names joined by
  the arrow in the order given, and a route then created on the path (its derived name
  being new) starts at the first stop and ends at the last one. For the list
  \<open>[A, B, C]\<close> these are \<open>A \<rightarrow> B \<rightarrow> C\<close>, \<open>A\<close> and \<open>C\<close>. The hypotheses are the
  schema's keys on the stops, that no stored \<open>path_stops\<close> row refers to a path key
  beyond the \<open>AUTOINCREMENT\<close> counter of the paths, which the foreign key of the
  schema implies, and that keys are left for the rows to insert: one for the path and
  for the route, one per listed stop for the stops and the \<open>path_stops\<close>.
\<close>

theorem stop_order_round_trip:
  assumes "distinct (map s_stop_id (stops d))" and "distinct (map s_name (stops d))"
    and "\<forall>ps\<in>set (path_stops d). ps_path_id ps \<le> seq_paths d"
    and "path_name \<notin> set (map p_path_name (paths d))" and "stop_names \<noteq> []"
    and "largest_key (seq_paths d) (map p_path_id (paths d)) < max_rowid"
    and "largest_key (seq_stops d) (map s_stop_id (stops d)) + int (length stop_names)
          \<le> max_rowid"
    and "largest_key (seq_path_stops d) (map ps_id (path_stops d)) + int (length stop_names)
          \<le> max_rowid"
    and "largest_key (seq_routes d) (map r_route_id (routes d)) < max_rowid"
  shows "\<exists>d2. create_path path_name stop_names d =
           Inr (''Created path '' @ quoted path_name @ '' with stops: '' @ join arrow stop_names, d2)
       \<and> list_stops_for_path path_name d2 =
           ''Stops on '' @ path_name @ '': '' @ join arrow stop_names
       \<and> (path_name @ '' - '' @ shift_time \<notin> set (map r_route_display_name (routes d)) \<longrightarrow>
           (\<exists>d3 r. create_route path_name shift_time direction d2 =
                Inr (''Created route '' @ quoted (path_name @ '' - '' @ shift_time) @ '' ('' @
                     direction @ '') from '' @ hd stop_names @ '' to '' @ last stop_names @ ''.'', d3)
              \<and> routes d3 = routes d @ [r]
              \<and> r_route_display_name r = path_name @ '' - '' @ shift_time
              \<and> r_start_point r = hd stop_names \<and> r_end_point r = last stop_names))"
proof -
  from create_path_created [OF assms(1-8)]
  obtain d2 pid where res: "create_path path_name stop_names d =
           Inr (''Created path '' @ quoted path_name @ '' with stops: '' @ join arrow stop_names, d2)"
    and sel: "select_path d2 path_name = Some pid"
    and names: "path_stop_names d2 pid = stop_names"
    and same: "routes d2 = routes d" "seq_routes d2 = seq_routes d"
    by blast
  have ne: "path_stop_names d2 pid \<noteq> []"
    using names assms(5) by simp
  have list: "list_stops_for_path path_name d2 =
      ''Stops on '' @ path_name @ '': '' @ join arrow stop_names"
    using assms(5) by (simp add: list_stops_for_path_def sel names Let_def)
  have room: "largest_key (seq_routes d2) (map r_route_id (routes d2)) < max_rowid"
    using assms(9) by (simp add: same)
  have route: "\<exists>d3 r. create_route path_name shift_time direction d2 =
                Inr (''Created route '' @ quoted (path_name @ '' - '' @ shift_time) @ '' ('' @
                     direction @ '') from '' @ hd stop_names @ '' to '' @ last stop_names @ ''.'', d3)
              \<and> routes d3 = routes d @ [r]
              \<and> r_route_display_name r = path_name @ '' - '' @ shift_time
              \<and> r_start_point r = hd stop_names \<and> r_end_point r = last stop_names"
    if new: "path_name @ '' - '' @ shift_time \<notin> set (map r_route_display_name (routes d))"
  proof -
    from new same have "path_name @ '' - '' @ shift_time \<notin> set (map r_route_display_name (routes d2))"
      by simp
    from create_route_created [OF sel ne this room, of direction] show ?thesis
      by (simp add: names same)
  qed
  from res list route show ?thesis by blast
qed

theorem stop_order_round_trip_witness:
  "\<exists>d2 d3. create_path ''Path-3'' [''Temple'', ''Odeon'', ''Majestic''] seed_db =
       Inr (''Created path '' @ quoted ''Path-3'' @ '' with stops: Temple'' @ arrow @ ''Odeon'' @
            arrow @ ''Majestic'', d2)
   \<and> list_stops_for_path ''Path-3'' d2 =
       ''Stops on Path-3: Temple'' @ arrow @ ''Odeon'' @ arrow @ ''Majestic''
   \<and> create_route ''Path-3'' ''07:00'' ''IN'' d2 =
       Inr (''Created route '' @ quoted ''Path-3 - 07:00'' @ '' (IN) from Temple to Majestic.'', d3)"
proof -
  have h: "distinct (map s_stop_id (stops seed_db))" "distinct (map s_name (stops seed_db))"
    "\<forall>ps\<in>set (path_stops seed_db). ps_path_id ps \<le> seq_paths seed_db"
    "''Path-3'' \<notin> set (map p_path_name (paths seed_db))"
    "[''Temple'', ''Odeon'', ''Majestic''] \<noteq> []"
    "largest_key (seq_paths seed_db) (map p_path_id (paths seed_db)) < max_rowid"
    "largest_key (seq_stops seed_db) (map s_stop_id (stops seed_db)) +
       int (length [''Temple'', ''Odeon'', ''Majestic'']) \<le> max_rowid"
    "largest_key (seq_path_stops seed_db) (map ps_id (path_stops seed_db)) +
       int (length [''Temple'', ''Odeon'', ''Majestic'']) \<le> max_rowid"
    "largest_key (seq_routes seed_db) (map r_route_id (routes seed_db)) < max_rowid"
    by (simp_all add: seed_db_def largest_key_def max_rowid_def)
  have new: "''Path-3'' @ '' - '' @ ''07:00'' \<notin> set (map r_route_display_name (routes seed_db))"
    by (simp add: seed_db_def)
  from stop_order_round_trip [OF h, of "''07:00''" "''IN''"] new
  obtain d2 d3 where
    "create_path ''Path-3'' [''Temple'', ''Odeon'', ''Majestic''] seed_db =
       Inr (''Created path '' @ quoted ''Path-3'' @ '' with stops: '' @
            join arrow [''Temple'', ''Odeon'', ''Majestic''], d2)"
    "list_stops_for_path ''Path-3'' d2 =
       ''Stops on '' @ ''Path-3'' @ '': '' @ join arrow [''Temple'', ''Odeon'', ''Majestic'']"
    "create_route ''Path-3'' ''07:00'' ''IN'' d2 =
       Inr (''Created route '' @ quoted (''Path-3'' @ '' - '' @ ''07:00'') @ '' ('' @ ''IN'' @
             '') from '' @ hd [''Temple'', ''Odeon'', ''Majestic''] @ '' to '' @
             last [''Temple'', ''Odeon'', ''Majestic''] @ ''.'', d3)"
    by blast
  then have "create_path ''Path-3'' [''Temple'', ''Odeon'', ''Majestic''] seed_db =
       Inr (''Created path '' @ quoted ''Path-3'' @ '' with stops: Temple'' @ arrow @ ''Odeon'' @
            arrow @ ''Majestic'', d2)
   \<and> list_stops_for_path ''Path-3'' d2 =
       ''Stops on Path-3: Temple'' @ arrow @ ''Odeon'' @ arrow @ ''Majestic''
   \<and> create_route ''Path-3'' ''07:00'' ''IN'' d2 =
       Inr (''Created route '' @ quoted ''Path-3 - 07:00'' @ '' (IN) from Temple to Majestic.'', d3)"
    by simp
  then show ?thesis by blast
qed

section \<open>The denylist of the generic query\<close>

lemma prefix_map_iff:
  assumes "\<forall>c\<in>set w. \<forall>x. f x = c \<longleftrightarrow> x = c"
  shows "prefix w (map f s) \<longleftrightarrow> prefix w s"
  using assms
proof (induction w arbitrary: s)
  case Nil
  then show ?case by simp
next
  case (Cons a w)
  show ?case
  proof (cases s)
    case Nil
    then show ?thesis by simp
  next
    case (Cons b t)
    from Cons.prems have "f b = a \<longleftrightarrow> b = a" by simp
    moreover from Cons.IH [of t] Cons.prems have "prefix w (map f t) \<longleftrightarrow> prefix w t" by simp
    ultimately show ?thesis using Cons by auto
  qed
qed

lemma strip_left_step:
  "find (\<lambda>w. w \<noteq> [] \<and> prefix w s) toks = None \<Longrightarrow> strip_left toks s = s"
  "find (\<lambda>w. w \<noteq> [] \<and> prefix w s) toks = Some w \<Longrightarrow>
     strip_left toks s = strip_left toks (drop (length w) s)"
  by (subst strip_left.simps, simp)+

lemma find_token:
  assumes "find (\<lambda>w. w \<noteq> [] \<and> prefix w s) toks = Some w"
  shows "w \<in> set toks" "w \<noteq> []" "prefix w s" "length (drop (length w) s) < length s"
proof -
  from assms show w: "w \<in> set toks" "w \<noteq> []" "prefix w s"
    by (auto simp: find_Some_iff)
  then have "s \<noteq> []" by auto
  with w(2) show "length (drop (length w) s) < length s" by simp
qed

lemma strip_left_map:
  assumes "\<forall>w\<in>set toks. \<forall>c\<in>set w. \<forall>x. f x = c \<longleftrightarrow> x = c"
  shows "strip_left toks (map f s) = map f (strip_left toks s)"
proof (induction "length s" arbitrary: s rule: less_induct)
  case less
  have same: "find (\<lambda>w. w \<noteq> [] \<and> prefix w (map f s)) toks
      = find (\<lambda>w. w \<noteq> [] \<and> prefix w s) toks"
    using assms by (intro find_cong refl) (simp add: prefix_map_iff)
  show ?case
  proof (cases "find (\<lambda>w. w \<noteq> [] \<and> prefix w s) toks")
    case None
    with same show ?thesis by (simp add: strip_left_step(1))
  next
    case (Some w)
    from find_token(4) [OF Some] less
    have "strip_left toks (map f (drop (length w) s)) = map f (strip_left toks (drop (length w) s))"
      by blast
    with Some same show ?thesis
      by (simp add: strip_left_step(2) drop_map)
  qed
qed

lemma lower_char_fix:
  assumes "\<not> (65 \<le> (of_char c :: nat) \<and> (of_char c :: nat) \<le> 90)"
    and "\<not> (97 \<le> (of_char c :: nat) \<and> (of_char c :: nat) \<le> 122)"
  shows "lower_char x = c \<longleftrightarrow> x = c"
proof (cases "65 \<le> (of_char x :: nat) \<and> (of_char x :: nat) \<le> 90")
  case True
  then have "(of_char (lower_char x) :: nat) = of_char x + 32"
    by (simp add: lower_char_def Let_def)
  with True assms show ?thesis by auto
next
  case False
  then have "lower_char x = x" by (auto simp add: lower_char_def Let_def)
  then show ?thesis by simp
qed

lemma whitespace_no_letter:
  "\<forall>w\<in>set whitespace. \<forall>c\<in>set w.
     \<not> (65 \<le> (of_char c :: nat) \<and> (of_char c :: nat) \<le> 90) \<and>
     \<not> (97 \<le> (of_char c :: nat) \<and> (of_char c :: nat) \<le> 122)"
  by (simp add: whitespace_def)

lemma lower_strip: "lower (strip s) = strip (lower s)"
proof -
  have 1: "\<forall>w\<in>set whitespace. \<forall>c\<in>set w. \<forall>x. lower_char x = c \<longleftrightarrow> x = c"
    using whitespace_no_letter lower_char_fix by blast
  then have 2: "\<forall>w\<in>set (map rev whitespace). \<forall>c\<in>set w. \<forall>x. lower_char x = c \<longleftrightarrow> x = c"
    by auto
  show ?thesis
    unfolding strip_def lower_def
    by (simp only: strip_left_map [OF 1] strip_left_map [OF 2] rev_map)
qed

lemma prefix_before:
  assumes "prefix w (ps @ a # rest)" and "a \<notin> set w"
  shows "prefix w ps"
proof -
  from assms(1) consider "prefix w ps" | us where "w = ps @ us" "prefix us (a # rest)"
    by (auto simp: prefix_append)
  then show ?thesis
  proof cases
    case 1
    then show ?thesis .
  next
    case 2
    with assms(2) have "us = []" by (cases us) auto
    with 2 show ?thesis by simp
  qed
qed

lemma sublist_strip_left:
  assumes "sublist m s" and "m \<noteq> []" and "\<forall>w\<in>set toks. hd m \<notin> set w"
  shows "sublist m (strip_left toks s)"
  using assms(1)
proof (induction "length s" arbitrary: s rule: less_induct)
  case less
  show ?case
  proof (cases "find (\<lambda>w. w \<noteq> [] \<and> prefix w s) toks")
    case None
    with less.prems show ?thesis by (simp add: strip_left_step(1))
  next
    case (Some w)
    note w = find_token [OF Some]
    from less.prems obtain ps ss where s: "s = ps @ m @ ss" by (auto simp: sublist_def)
    from assms(2) obtain a m' where m: "m = a # m'" by (cases m) auto
    with assms(3) w(1) have "a \<notin> set w" by auto
    moreover from w(3) have "prefix w (ps @ a # (m' @ ss))" by (simp add: s m)
    ultimately have "prefix w ps" by (rule prefix_before [rotated])
    then obtain ps' where "ps = w @ ps'" by (auto simp: prefix_def)
    then have "drop (length w) s = ps' @ m @ ss" by (simp add: s)
    then have "sublist m (drop (length w) s)" by (simp add: sublist_def) blast
    with less.hyps [OF w(4)] have "sublist m (strip_left toks (drop (length w) s))" by blast
    with Some show ?thesis by (simp add: strip_left_step(2))
  qed
qed

lemma sublist_strip:
  assumes "sublist m xs" and "m \<noteq> []"
    and "\<forall>w\<in>set whitespace. hd m \<notin> set w \<and> last m \<notin> set w"
  shows "sublist m (strip xs)"
proof -
  have "sublist (rev m) (rev xs)" using assms(1) by (simp add: sublist_rev)
  moreover have "rev m \<noteq> []" using assms(2) by simp
  moreover have "\<forall>w\<in>set (map rev whitespace). hd (rev m) \<notin> set w"
    using assms(2,3) by (auto simp: hd_rev)
  ultimately have "sublist (rev m) (strip_left (map rev whitespace) (rev xs))"
    by (rule sublist_strip_left)
  then have "sublist (rev (rev m)) (rev (strip_left (map rev whitespace) (rev xs)))"
    by (simp only: sublist_rev)
  then have "sublist m (rev (strip_left (map rev whitespace) (rev xs)))" by simp
  moreover from assms(3) have "\<forall>w\<in>set whitespace. hd m \<notin> set w" by blast
  ultimately show ?thesis
    unfolding strip_def using assms(2) by (intro sublist_strip_left)
qed

lemma blocked:
  assumes "b \<in> set banned" and "sublist b (lower (strip query))"
  shows "dynamic_run_sql_query execute query mode d = (''Unsafe SQL command blocked.'', d)"
  using assms unfolding dynamic_run_sql_query_def Let_def by auto

lemma drop_table_stops_blocked:
  assumes "sublist ''drop table stops'' (lower query)"
  shows "dynamic_run_sql_query execute query mode d = (''Unsafe SQL command blocked.'', d)"
proof -
  have "\<forall>w\<in>set whitespace. hd ''drop table stops'' \<notin> set w \<and> last ''drop table stops'' \<notin> set w"
    by (simp add: whitespace_def)
  with assms have "sublist ''drop table stops'' (strip (lower query))"
    by (intro sublist_strip) simp_all
  moreover have "sublist ''drop '' ''drop table stops''"
    by (rule prefix_imp_sublist) simp
  ultimately have "sublist ''drop '' (lower (strip query))"
    unfolding lower_strip by (rule sublist_order.order.trans [rotated])
  moreover have "''drop '' \<in> set banned" by (simp add: banned_def)
  ultimately show ?thesis by (rule blocked [rotated])
qed


lemma update_normal:
  "lower (strip ''update vehicles set capacity=0'') = ''update vehicles set capacity=0''"
  by code_simp

lemma update_not_banned:
  "\<not> (\<exists>b\<in>set banned. sublist b ''update vehicles set capacity=0'')"
  by code_simp

lemma update_not_select: "\<not> prefix ''select'' ''update vehicles set capacity=0''"
  by simp

text \<open>
  What the denylist does enforce: a statement whose trimmed, lower-cased text contains
  one of the entries of \<open>banned\<close> is rejected in every mode without reaching the
  engine, and so is every statement that contains \<open>drop table stops\<close> in any mix of
  cases; a statement that does not start with \<open>select\<close> is rejected in read mode; the
  statement \<open>update vehicles set capacity=0\<close> is rejected in read mode and handed to the
  engine in write mode, where the answer reports the engine's row count.
\<close>

lemma denylist_entries_enforced:
  "(\<forall>b\<in>set banned. sublist b (lower (strip query)) \<longrightarrow>
       dynamic_run_sql_query execute query mode d = (''Unsafe SQL command blocked.'', d))
   \<and> (sublist ''drop table stops'' (lower query) \<longrightarrow>
       dynamic_run_sql_query execute query mode d = (''Unsafe SQL command blocked.'', d))
   \<and> (mode = ''read'' \<and> \<not> prefix ''select'' (lower (strip query)) \<longrightarrow>
       dynamic_run_sql_query execute query mode d = (''Unsafe SQL command blocked.'', d)
       \<or> dynamic_run_sql_query execute query mode d =
           (''Only SELECT queries allowed in read mode.'', d))
   \<and> dynamic_run_sql_query execute ''update vehicles set capacity=0'' ''read'' d =
       (''Only SELECT queries allowed in read mode.'', d)
   \<and> (execute ''update vehicles set capacity=0'' d = Executed headers rows rowcount d' \<longrightarrow>
       dynamic_run_sql_query execute ''update vehicles set capacity=0'' ''write'' d =
       (''Query executed successfully ('' @ str_int rowcount @ '' rows affected).'', d'))
   \<and> (execute ''update vehicles set capacity=0'' d = Raised e \<longrightarrow>
       dynamic_run_sql_query execute ''update vehicles set capacity=0'' ''write'' d =
       (''SQL error: '' @ e, d))"
proof (intro conjI ballI impI)
  fix b assume "b \<in> set banned" "sublist b (lower (strip query))"
  then show "dynamic_run_sql_query execute query mode d = (''Unsafe SQL command blocked.'', d)"
    by (rule blocked)
next
  assume "sublist ''drop table stops'' (lower query)"
  then show "dynamic_run_sql_query execute query mode d = (''Unsafe SQL command blocked.'', d)"
    by (rule drop_table_stops_blocked)
next
  assume "mode = ''read'' \<and> \<not> prefix ''select'' (lower (strip query))"
  then show "dynamic_run_sql_query execute query mode d = (''Unsafe SQL command blocked.'', d)
       \<or> dynamic_run_sql_query execute query mode d =
           (''Only SELECT queries allowed in read mode.'', d)"
    unfolding dynamic_run_sql_query_def Let_def by simp
next
  show "dynamic_run_sql_query execute ''update vehicles set capacity=0'' ''read'' d =
       (''Only SELECT queries allowed in read mode.'', d)"
    unfolding dynamic_run_sql_query_def Let_def update_normal
    using update_not_banned update_not_select by simp
next
  assume "execute ''update vehicles set capacity=0'' d = Executed headers rows rowcount d'"
  then show "dynamic_run_sql_query execute ''update vehicles set capacity=0'' ''write'' d =
       (''Query executed successfully ('' @ str_int rowcount @ '' rows affected).'', d')"
    unfolding dynamic_run_sql_query_def Let_def update_normal
    using update_not_banned update_not_select by simp
next
  assume "execute ''update vehicles set capacity=0'' d = Raised e"
  then show "dynamic_run_sql_query execute ''update vehicles set capacity=0'' ''write'' d =
       (''SQL error: '' @ e, d)"
    unfolding dynamic_run_sql_query_def Let_def update_normal
    using update_not_banned update_not_select by simp
qed


lemma drop_tab_normal:
  "lower (strip (''DROP'' @ [CHR 0x09] @ ''TABLE stops'')) = ''drop'' @ [CHR 0x09] @ ''table stops''"
  by code_simp

lemma drop_tab_not_banned:
  "\<not> (\<exists>b\<in>set banned. sublist b (''drop'' @ [CHR 0x09] @ ''table stops''))"
  by code_simp

text \<open>
  C4. The generic query is to reject, in every mode and without executing it, a statement
  that contains a denylisted keyword such as \<open>DROP\<close>; the docstring of
  \<open>dynamic_run_sql_query\<close> says that any dangerous statement (\<open>DROP\<close>, \<open>ALTER\<close>,
  \<open>PRAGMA\<close>) is blocked. The entries \<open>drop\<close> and \<open>alter\<close> of the denylist end in a
  blank, so the keyword followed by a tab is not matched: in write mode the statement
  \<open>DROP\<close>, tab, \<open>TABLE stops\<close> is handed to the engine, and when the engine runs it
  the answer is the row-count confirmation and the database is the one the statement
  leaves.
\<close>

theorem drop_with_tab_is_executed:
  "dynamic_run_sql_query execute (''DROP'' @ [CHR 0x09] @ ''TABLE stops'') ''write'' d =
     (case execute (''DROP'' @ [CHR 0x09] @ ''TABLE stops'') d of
        Raised e \<Rightarrow> (''SQL error: '' @ e, d)
      | Executed headers rows rowcount d' \<Rightarrow>
          (''Query executed successfully ('' @ str_int rowcount @ '' rows affected).'', d'))"
proof -
  have "\<not> prefix ''select'' (''drop'' @ [CHR 0x09] @ ''table stops'')" by simp
  then show ?thesis
    unfolding dynamic_run_sql_query_def Let_def drop_tab_normal
    using drop_tab_not_banned by (simp split: sql_result.split)
qed

theorem drop_with_tab_is_executed_witness:
  "dynamic_run_sql_query (\<lambda>q d. Executed [] [] (- 1) (d\<lparr>stops := []\<rparr>))
     (''DROP'' @ [CHR 0x09] @ ''TABLE stops'') ''write'' seed_db =
   (''Query executed successfully (-1 rows affected).'', seed_db\<lparr>stops := []\<rparr>)"
proof -
  have "str_int (- 1) = ''-1''" by code_simp
  then show ?thesis
    using drop_with_tab_is_executed [of "\<lambda>q d. Executed [] [] (- 1) (d\<lparr>stops := []\<rparr>)" seed_db]
    by simp
qed

section \<open>One round of the decision loop\<close>

lemma next_node_start: "next_node ''__start__'' st = ''agent''"
  by (simp add: next_node_def targets_def edges_def)

lemma next_node_tools: "next_node ''tools'' st = ''agent''"
  by (simp add: next_node_def targets_def edges_def)

lemma next_node_agent: "next_node ''agent'' st = tools_condition st"
  by (simp add: next_node_def targets_def edges_def tools_condition_def)

lemma run_graph_end: "run_graph caps ''__end__'' st = Some st"
  by (subst run_graph.simps) simp

lemma run_graph_agent:
  "run_graph caps ''agent'' st =
     run_graph caps (tools_condition (agent_node caps st)) (agent_node caps st)"
  by (subst run_graph.simps) (simp add: run_node_def next_node_agent)

lemma run_graph_tools:
  "run_graph caps ''tools'' st = run_graph caps ''agent'' (tool_node caps st)"
  by (subst run_graph.simps) (simp add: run_node_def next_node_tools)

lemma decision_loop_run:
  assumes r1: "reason caps s0 (SystemMessage (build_system_prompt caps d0 page) # msgs) =
                 ((c1, [call]), s1)"
    and t: "run_tool caps call d0 = (res, d1)"
    and r2: "reason caps s1 (SystemMessage (build_system_prompt caps d1 page) #
               msgs @ [AIMessage (Plain c1) [call], ToolMessage res (tc_id call)]) =
                 ((c2, []), s2)"
  shows "graph_invoke caps \<lparr>messages = msgs, current_page = page, st_db = d0, st_llm = s0\<rparr> =
     Some \<lparr>messages = msgs @ [AIMessage (Plain c1) [call], ToolMessage res (tc_id call),
                               AIMessage (Plain c2) []],
           current_page = page, st_db = d1, st_llm = s2\<rparr>"
proof -
  let ?st0 = "\<lparr>messages = msgs, current_page = page, st_db = d0, st_llm = s0\<rparr>"
  let ?st1 = "\<lparr>messages = msgs @ [AIMessage (Plain c1) [call]], current_page = page,
              st_db = d0, st_llm = s1\<rparr>"
  let ?st2 = "\<lparr>messages = msgs @ [AIMessage (Plain c1) [call], ToolMessage res (tc_id call)],
              current_page = page, st_db = d1, st_llm = s1\<rparr>"
  let ?st3 = "\<lparr>messages = msgs @ [AIMessage (Plain c1) [call], ToolMessage res (tc_id call),
                               AIMessage (Plain c2) []],
              current_page = page, st_db = d1, st_llm = s2\<rparr>"
  have a1: "agent_node caps ?st0 = ?st1"
    by (simp add: agent_node_def r1)
  have c1: "tools_condition ?st1 = ''tools''"
    by (simp add: tools_condition_def last_tool_calls_def)
  have t1: "tool_node caps ?st1 = ?st2"
    by (simp add: tool_node_def last_tool_calls_def t)
  have a2: "agent_node caps ?st2 = ?st3"
    using r2 by (simp add: agent_node_def)
  have c2: "tools_condition ?st3 = ''__end__''"
    by (simp add: tools_condition_def last_tool_calls_def)
  have "graph_invoke caps ?st0 = run_graph caps ''agent'' ?st0"
    by (simp add: graph_invoke_def next_node_start)
  also have "\<dots> = run_graph caps ''tools'' ?st1"
    by (simp only: run_graph_agent a1 c1)
  also have "\<dots> = run_graph caps ''agent'' ?st2"
    by (simp only: run_graph_tools t1)
  also have "\<dots> = run_graph caps ''__end__'' ?st3"
    by (simp only: run_graph_agent a2 c2)
  also have "\<dots> = Some ?st3"
    by (rule run_graph_end)
  finally show ?thesis .
qed

text \<open>
  C3. When the reasoning capability on its first step requests exactly one tool call and
  on its second step, after the result of that call, returns a message without tool
  calls, the graph runs the agent, dispatches that one call, runs the agent again and
  ends: the final state is returned (the run does not go on for ever), it holds exactly
  one tool message, the database is the one the single dispatch left, and the chat step
  appends the final message as the new assistant turn.
\<close>

theorem decision_loop_one_dispatch:
  assumes "msgs = map coerce (history_to_graph_messages
                     (chat_history @ [\<lparr>role = ''user'', content = user_input\<rparr>]) image_b64)"
    and "reason caps s0 (SystemMessage (build_system_prompt caps d0 page) # msgs) =
                 ((c1, [call]), s1)"
    and "run_tool caps call d0 = (res, d1)"
    and "reason caps s1 (SystemMessage (build_system_prompt caps d1 page) #
               msgs @ [AIMessage (Plain c1) [call], ToolMessage res (tc_id call)]) =
                 ((c2, []), s2)"
  shows "graph_invoke caps \<lparr>messages = msgs, current_page = page, st_db = d0, st_llm = s0\<rparr> =
           Some \<lparr>messages = msgs @ [AIMessage (Plain c1) [call], ToolMessage res (tc_id call),
                                     AIMessage (Plain c2) []],
                 current_page = page, st_db = d1, st_llm = s2\<rparr>
       \<and> chat_step caps page user_input image_b64 chat_history d0 s0 =
           Some (chat_history @ [\<lparr>role = ''user'', content = user_input\<rparr>,
                                 \<lparr>role = ''assistant'', content = c2\<rparr>], d1, s2)"
proof -
  note run = decision_loop_run [OF assms(2,3,4)]
  have "chat_step caps page user_input image_b64 chat_history d0 s0 =
           Some (chat_history @ [\<lparr>role = ''user'', content = user_input\<rparr>,
                                 \<lparr>role = ''assistant'', content = c2\<rparr>], d1, s2)"
    unfolding chat_step_def Let_def assms(1) [symmetric] run
    by (simp add: reply_text_def content_text_def)
  with run show ?thesis by simp
qed


theorem decision_loop_one_dispatch_witness:
  "chat_step
     \<lparr>reason = (\<lambda>n ms. if n = (0::nat)
                 then ((''Checking.'', [\<lparr>tc_name = ''tool_count_unassigned_vehicles'', tc_args = [],
                                          tc_id = ''call_1''\<rparr>]), 1)
                 else ((''One vehicle is free.'', []), Suc n)),
      build_system_prompt = (\<lambda>d p. ''Current UI Page: '' @ p),
      run_tool = (\<lambda>c d. (''There are 1 vehicles not assigned to any trip right now.'', d)),
      run_concurrently = (\<lambda>cs d. (map (\<lambda>c. ''There are 1 vehicles not assigned to any trip right now.'') cs, d))\<rparr>
     ''busDashboard'' ''How many vehicles are free?'' None [] seed_db 0
   = Some ([\<lparr>role = ''user'', content = ''How many vehicles are free?''\<rparr>,
            \<lparr>role = ''assistant'', content = ''One vehicle is free.''\<rparr>], seed_db, 2)"
proof -
  let ?call = "\<lparr>tc_name = ''tool_count_unassigned_vehicles'', tc_args = [], tc_id = ''call_1''\<rparr>"
  let ?caps = "\<lparr>reason = (\<lambda>n ms. if n = (0::nat)
                 then ((''Checking.'', [?call]), 1)
                 else ((''One vehicle is free.'', []), Suc n)),
      build_system_prompt = (\<lambda>d p. ''Current UI Page: '' @ p),
      run_tool = (\<lambda>c d. (''There are 1 vehicles not assigned to any trip right now.'', d)),
      run_concurrently = (\<lambda>cs d. (map (\<lambda>c. ''There are 1 vehicles not assigned to any trip right now.'') cs, d))\<rparr>"
  let ?msgs = "map coerce (history_to_graph_messages
                     ([] @ [\<lparr>role = ''user'', content = ''How many vehicles are free?''\<rparr>]) None)"
  have 1: "reason ?caps 0 (SystemMessage (build_system_prompt ?caps seed_db ''busDashboard'') # ?msgs) =
                 ((''Checking.'', [?call]), 1)"
    by simp
  have 2: "run_tool ?caps ?call seed_db =
      (''There are 1 vehicles not assigned to any trip right now.'', seed_db)"
    by simp
  have 3: "reason ?caps 1 (SystemMessage (build_system_prompt ?caps seed_db ''busDashboard'') #
               ?msgs @ [AIMessage (Plain ''Checking.'') [?call],
                 ToolMessage ''There are 1 vehicles not assigned to any trip right now.'' (tc_id ?call)]) =
                 ((''One vehicle is free.'', []), 2)"
    by simp
  from decision_loop_one_dispatch [OF refl 1 2 3, THEN conjunct2]
  show ?thesis by simp
qed

section \<open>The operations keep the keys of the schema\<close>

text \<open>
  The hypotheses on the keys of the schema that the theorems above make hold in the
  seeded database and after each operation of the store that returns, so in every
  database the operations reach.
\<close>

lemma schema_ok_seed: "schema_ok seed_db"
  by (simp add: schema_ok_def seed_db_def)

lemma schema_ok_insert_stop:
  assumes "schema_ok d" and "insert_stop name lat lon d = Inr (k, d')"
  shows "schema_ok d'"
proof -
  from assms(2) obtain k' where k: "fresh_id (seq_stops d) (map s_stop_id (stops d)) = Some k'"
    by (auto simp: insert_stop_def split: option.splits)
  then have "k' \<notin> set (map s_stop_id (stops d))" by (rule fresh_id_notin)
  with assms k show ?thesis
    by (auto simp add: insert_stop_def schema_ok_def split: if_splits)
qed

lemma schema_ok_create_stop:
  assumes "schema_ok d" and "create_stop name lat lon d = Inr (m, d')"
  shows "schema_ok d'"
proof (cases "insert_stop name lat lon d")
  case (Inl e)
  with assms show ?thesis
    by (cases e) (simp_all add: create_stop_def except_integrity_def)
next
  case (Inr r)
  obtain k d1 where r: "r = (k, d1)" by (cases r)
  from assms(1) Inr [unfolded r] have "schema_ok d1" by (rule schema_ok_insert_stop)
  with assms(2) Inr r show ?thesis by (simp add: create_stop_def)
qed

lemma schema_ok_insert_path_stop:
  assumes "schema_ok d" and "pid \<le> seq_paths d" and "insert_path_stop pid sid k d = Inr d'"
  shows "schema_ok d' \<and> seq_paths d' = seq_paths d"
  using assms by (auto simp add: schema_ok_def insert_path_stop_def split: option.splits)

lemma add_path_stops_schema_ok:
  assumes "schema_ok d" and "pid \<le> seq_paths d" and "add_path_stops pid xs d = Inr d'"
  shows "schema_ok d'"
  using assms
proof (induction xs arbitrary: d)
  case Nil
  then show ?case by simp
next
  case (Cons a xs)
  obtain sq name where a: "a = (sq, name)" by (cases a)
  show ?case
  proof (cases "fetchone [s_stop_id s. s \<leftarrow> stops d, s_name s = name]")
    case (Some sid)
    from Cons.prems(3) obtain d1 where d1: "insert_path_stop pid sid (int sq) d = Inr d1"
      and rest: "add_path_stops pid xs d1 = Inr d'"
      by (auto simp: a Some split: sum.splits)
    from schema_ok_insert_path_stop [OF Cons.prems(1,2) d1]
    have "schema_ok d1" "pid \<le> seq_paths d1" using Cons.prems(2) by simp_all
    then show ?thesis using rest by (rule Cons.IH)
  next
    case None
    from Cons.prems(3) obtain k d0 d1 where d0: "insert_stop name None None d = Inr (k, d0)"
      and d1: "insert_path_stop pid k (int sq) d0 = Inr d1"
      and rest: "add_path_stops pid xs d1 = Inr d'"
      by (auto simp: a None split: sum.splits)
    from Cons.prems(1) d0 have ok0: "schema_ok d0" by (rule schema_ok_insert_stop)
    from d0 have "seq_paths d0 = seq_paths d"
      by (auto simp: insert_stop_def split: option.splits if_splits)
    with Cons.prems(2) have le0: "pid \<le> seq_paths d0" by simp
    from schema_ok_insert_path_stop [OF ok0 le0 d1]
    have "schema_ok d1" "pid \<le> seq_paths d1" using le0 by simp_all
    then show ?thesis using rest by (rule Cons.IH)
  qed
qed

lemma schema_ok_create_path:
  assumes "schema_ok d" and "create_path path_name stop_names d = Inr (m, d')"
  shows "schema_ok d'"
proof (cases "stop_names = []")
  case True
  with assms show ?thesis by (simp add: create_path_def)
next
  case False
  show ?thesis
  proof (cases "insert_path path_name d")
    case (Inl e)
    with assms False show ?thesis
      by (cases e) (simp_all add: create_path_def except_integrity_def)
  next
    case (Inr r)
    obtain pid d1 where r: "r = (pid, d1)" by (cases r)
    from Inr [unfolded r] have k: "fresh_id (seq_paths d) (map p_path_id (paths d)) = Some pid"
      and new: "path_name \<notin> set (map p_path_name (paths d))"
      and d1: "d1 = d\<lparr>paths := paths d @ [\<lparr>p_path_id = pid, p_path_name = path_name\<rparr>],
                       seq_paths := pid\<rparr>"
      by (auto simp: insert_path_def split: option.splits if_splits)
    have lt: "seq_paths d < pid" using k by (rule fresh_id_gt(1))
    have "\<forall>ps\<in>set (path_stops d). ps_path_id ps \<le> pid"
      using assms(1) lt by (force simp: schema_ok_def)
    with assms(1) new have ok1: "schema_ok d1"
      by (simp add: schema_ok_def d1)
    have le: "pid \<le> seq_paths d1" by (simp add: d1)
    show ?thesis
    proof (cases "add_path_stops pid (enumerate 1 stop_names) d1")
      case (Inl e)
      with assms False Inr r show ?thesis
        by (cases e) (simp_all add: create_path_def except_integrity_def)
    next
      case (Inr d2)
      from ok1 le Inr have "schema_ok d2" by (rule add_path_stops_schema_ok)
      with assms(2) False \<open>insert_path path_name d = Inr r\<close> r Inr show ?thesis
        by (simp add: create_path_def)
    qed
  qed
qed

lemma schema_ok_create_route:
  assumes "schema_ok d" and "create_route path_name shift_time direction d = Inr (m, d')"
  shows "schema_ok d'"
proof -
  have ins: "schema_ok d1" if "insert_route pid n sh dir a b st d = Inr (k, d1)" for pid n sh dir a b st k d1
  proof -
    from that obtain k' where k: "fresh_id (seq_routes d) (map r_route_id (routes d)) = Some k'"
      by (auto simp: insert_route_def split: option.splits)
    then have "k' \<notin> set (map r_route_id (routes d))" by (rule fresh_id_notin)
    with assms(1) that k show ?thesis
      by (auto simp add: insert_route_def schema_ok_def split: if_splits)
  qed
  from assms show ?thesis
    by (auto simp add: create_route_def Let_def except_integrity_def
        split: option.splits if_splits sum.splits py_error.splits dest: ins)
qed

lemma schema_ok_remove:
  assumes "schema_ok d"
  shows "schema_ok (snd (remove_vehicle_from_trip fmt name force d))"
  using assms
  by (auto simp add: remove_vehicle_from_trip_def Let_def schema_ok_def distinct_map_filter
      split: option.splits)

lemma schema_ok_assign:
  assumes "schema_ok d" and "assign_vehicle_and_driver name plate driver d = Inr (m, d')"
  shows "schema_ok d'"
proof -
  have upd: "map dep_trip_id (map (\<lambda>dep. if dep_deployment_id dep = e
        then dep\<lparr>dep_vehicle_id := Some v, dep_driver_id := Some dr\<rparr> else dep) xs)
      = map dep_trip_id xs" for e v dr and xs :: "deployment_row list"
    by (induction xs) simp_all
  from assms show ?thesis
    by (auto simp add: assign_vehicle_and_driver_def insert_deployment_def schema_ok_def upd
        simp del: map_map split: option.splits if_splits sum.splits)
qed

end
